theory Spec2Isabelle
  imports Complex_Main "HOL-Library.Sublist" "HOL-Library.AList"
begin

section \<open>Values of the host language\<close>

text \<open>
  A JavaScript number is modelled as a real, with \<open>None\<close> for NaN. Rounding of doubles,
  the infinities and the negative zero are not modelled. Strings are lists of 8-bit characters.
\<close>

type_synonym number = "real option"

definition plus_number :: "number \<Rightarrow> number \<Rightarrow> number" where
  "plus_number a b = (case a of None \<Rightarrow> None | Some x \<Rightarrow> (case b of None \<Rightarrow> None | Some y \<Rightarrow> Some (x + y)))"

text \<open>\<open>a || d\<close> on an attribute value: \<open>null\<close> and the empty string are falsy.\<close>

definition orElse :: "string option \<Rightarrow> string \<Rightarrow> string" where
  "orElse a d = (case a of None \<Rightarrow> d | Some v \<Rightarrow> if v = [] then d else v)"

definition truthy :: "string option \<Rightarrow> bool" where
  "truthy a = (case a of None \<Rightarrow> False | Some v \<Rightarrow> v \<noteq> [])"

text \<open>\<open>String.prototype.includes\<close>, \<open>startsWith\<close> is \<^const>\<open>prefix\<close>.\<close>

fun str_includes :: "string \<Rightarrow> string \<Rightarrow> bool" where
  "str_includes [] p = (p = [])"
| "str_includes (c # cs) p = (prefix p (c # cs) \<or> str_includes cs p)"

text \<open>\<open>String.prototype.toLowerCase\<close> on the ASCII letters.\<close>

definition lowerChar :: "char \<Rightarrow> char" where
  "lowerChar c = (case List.find (\<lambda>p. fst p = c) (zip ''ABCDEFGHIJKLMNOPQRSTUVWXYZ'' ''abcdefghijklmnopqrstuvwxyz'') of
      None \<Rightarrow> c | Some p \<Rightarrow> snd p)"

definition toLowerCase :: "string \<Rightarrow> string" where
  "toLowerCase s = map lowerChar s"

text \<open>
  \<open>parseInt(s)\<close> with no radix: leading white space is skipped, a sign is read, a
  \<open>0x\<close> prefix selects base 16, and the longest run of digits is the value; no digit gives NaN.
\<close>

definition isWhiteSpace :: "char \<Rightarrow> bool" where
  "isWhiteSpace c = (c \<in> set [CHR '' '', CHR 0x09, CHR 0x0A, CHR 0x0B, CHR 0x0C, CHR 0x0D])"

fun indexOf :: "'a \<Rightarrow> 'a list \<Rightarrow> nat option" where
  "indexOf c [] = None"
| "indexOf c (x # xs) = (if x = c then Some 0 else map_option Suc (indexOf c xs))"

definition digitVal :: "char \<Rightarrow> nat option" where
  "digitVal c =
     (case indexOf c ''0123456789abcdefghijklmnopqrstuvwxyz'' of
        Some d \<Rightarrow> Some d
      | None \<Rightarrow> map_option (\<lambda>d. d + 10) (indexOf c ''ABCDEFGHIJKLMNOPQRSTUVWXYZ''))"

definition isDigitIn :: "nat \<Rightarrow> char \<Rightarrow> bool" where
  "isDigitIn radix c = (case digitVal c of None \<Rightarrow> False | Some d \<Rightarrow> d < radix)"

definition parseDigits :: "nat \<Rightarrow> string \<Rightarrow> number" where
  "parseDigits radix s =
     (let ds = takeWhile (isDigitIn radix) s
      in if ds = [] then None
         else Some (real (foldl (\<lambda>acc c. acc * radix + the (digitVal c)) 0 ds)))"

definition parseUnsigned :: "string \<Rightarrow> number" where
  "parseUnsigned s =
     (if prefix ''0x'' s \<or> prefix ''0X'' s then parseDigits 16 (drop 2 s) else parseDigits 10 s)"

definition parseInt :: "string \<Rightarrow> number" where
  "parseInt str =
     (let s = dropWhile isWhiteSpace str
      in case s of
           [] \<Rightarrow> None
         | c # cs \<Rightarrow>
             if c = CHR ''-'' then map_option uminus (parseUnsigned cs)
             else if c = CHR ''+'' then parseUnsigned cs
             else parseUnsigned s)"

text \<open>
  \<open>String(n)\<close> is a function of the host. The model takes it as a parameter; \<open>decimalString\<close>
  is its value on NaN and on the integers, used where an example needs a concrete host.
\<close>

fun showNat :: "nat \<Rightarrow> string" where
  "showNat n = (if n < 10 then [''0123456789'' ! n] else showNat (n div 10) @ [''0123456789'' ! (n mod 10)])"

declare showNat.simps [simp del]

definition decimalString :: "number \<Rightarrow> string" where
  "decimalString n =
     (case n of
        None \<Rightarrow> ''NaN''
      | Some r \<Rightarrow> if r < 0 then CHR ''-'' # showNat (nat \<lfloor>- r\<rfloor>) else showNat (nat \<lfloor>r\<rfloor>))"

section \<open>The generation service: \<open>withRetry\<close>\<close>

text \<open>
  A caught error is seen through \<open>error?.status\<close> and \<open>JSON.stringify(error)\<close>. The callback
  \<open>fn\<close> is effectful, so it is the sequence of its outcomes: \<open>fn i\<close> is what its call in
  iteration \<open>i\<close> does. The result is what the promise settles to, the delays slept in order and
  the number of calls of \<open>fn\<close>.
\<close>

record api_error =
  status :: "int option"
  errorString :: string

datatype thrown = Rethrown api_error | NewError string

datatype 'a completion = Returned 'a | Thrown thrown

definition isQuotaError :: "api_error \<Rightarrow> bool" where
  "isQuotaError error =
     (status error = Some 429 \<or> str_includes (errorString error) ''429''
      \<or> str_includes (errorString error) ''RESOURCE_EXHAUSTED'')"

definition isEntityError :: "api_error \<Rightarrow> bool" where
  "isEntityError error = str_includes (errorString error) ''Requested entity was not found.''"

function withRetry_loop ::
  "(nat \<Rightarrow> api_error + 'a) \<Rightarrow> nat \<Rightarrow> nat \<Rightarrow> nat \<Rightarrow> nat list \<Rightarrow> 'a completion \<times> nat list \<times> nat" where
  "withRetry_loop fn maxRetries i delay slept =
     (if i \<le> maxRetries then
        (case fn i of
           Inr v \<Rightarrow> (Returned v, slept, Suc i)
         | Inl error \<Rightarrow>
             if isEntityError error then (Thrown (NewError ''ENTITY_NOT_FOUND''), slept, Suc i)
             else if isQuotaError error \<and> i < maxRetries
               then withRetry_loop fn maxRetries (i + 1) (delay * 2) (slept @ [delay])
             else (Thrown (Rethrown error), slept, Suc i))
      else (Thrown (NewError ''RETRY_LIMIT_REACHED''), slept, i))"
  by pat_completeness auto
termination
  by (relation "measure (\<lambda>(fn, maxRetries, i, delay, slept). Suc maxRetries - i)") auto

declare withRetry_loop.simps [simp del]

definition withRetry :: "(nat \<Rightarrow> api_error + 'a) \<Rightarrow> nat \<Rightarrow> 'a completion \<times> nat list \<times> nat" where
  "withRetry fn maxRetries = withRetry_loop fn maxRetries 0 2000 []"

text \<open>A failed attempt that the loop answers with a retry while retries remain.\<close>

definition retryable :: "api_error + 'a \<Rightarrow> bool" where
  "retryable r = (case r of Inl error \<Rightarrow> isQuotaError error \<and> \<not> isEntityError error | Inr v \<Rightarrow> False)"

section \<open>The scene document\<close>

text \<open>
  The document is a store of element objects addressed by reference, as the DOM is: the
  selection holds references, and the handlers mutate the elements they point to. Text nodes
  are left out. \<open>nextRef\<close> is the first reference not yet given to an object.
\<close>

type_synonym ref = nat

record element =
  tagName :: string
  attributes :: "(string \<times> string) list"
  children :: "ref list"
  parentNode :: "ref option"

record BoundingBox =
  box_x :: real
  box_y :: real
  width :: real
  height :: real

record GradientStop =
  offset :: number
  color :: string

datatype gradient_type = Linear | Radial

record GradientProps =
  enabled :: bool
  gtype :: gradient_type
  angle :: real
  stops :: "GradientStop list"

record app =
  heap :: "ref \<Rightarrow> element"
  nextRef :: ref
  rootSvg :: "ref option"
  selectedElements :: "ref list"
  gradientProps :: GradientProps

text \<open>
  What the browser supplies: the measured box of an element (\<open>None\<close> when \<open>getBBox\<close> throws),
  the text of a number, and the text \<open>Math.random().toString(36)\<close> of the i-th draw of a handler.
\<close>

record host =
  getBBox :: "ref \<Rightarrow> BoundingBox option"
  numberToString :: "number \<Rightarrow> string"
  randomBase36 :: "nat \<Rightarrow> string"

datatype dom_error = HierarchyRequestError | NotFoundError

subsection \<open>DOM primitives\<close>

definition update_element :: "ref \<Rightarrow> (element \<Rightarrow> element) \<Rightarrow> app \<Rightarrow> app" where
  "update_element r f s = s\<lparr>heap := (heap s)(r := f (heap s r))\<rparr>"

definition getAttribute :: "app \<Rightarrow> ref \<Rightarrow> string \<Rightarrow> string option" where
  "getAttribute s r name = map_of (attributes (heap s r)) name"

definition setAttribute :: "ref \<Rightarrow> string \<Rightarrow> string \<Rightarrow> app \<Rightarrow> app" where
  "setAttribute r name v = update_element r (\<lambda>e. e\<lparr>attributes := AList.update name v (attributes e)\<rparr>)"

definition createElementNS :: "string \<Rightarrow> app \<Rightarrow> ref \<times> app" where
  "createElementNS tag s =
     (nextRef s,
      s\<lparr>heap := (heap s)(nextRef s := \<lparr>tagName = tag, attributes = [], children = [], parentNode = None\<rparr>),
        nextRef := Suc (nextRef s)\<rparr>)"

text \<open>
  The inclusive ancestors of a node, nearest first. The fuel bounds the length of the walk; the
  checks below walk with fuel \<open>nextRef\<close>, which reaches the root in any tree of the objects
  created so far.
\<close>

fun ancestors :: "nat \<Rightarrow> (ref \<Rightarrow> element) \<Rightarrow> ref \<Rightarrow> ref list" where
  "ancestors 0 h n = [n]"
| "ancestors (Suc k) h n = n # (case parentNode (h n) of None \<Rightarrow> [] | Some p \<Rightarrow> ancestors k h p)"

text \<open>
  The descendants of a node in document order. The fuel bounds the depth; the queries below
  search with fuel \<open>nextRef\<close>, deeper than any tree of the objects created so far.
\<close>

fun descendants :: "nat \<Rightarrow> (ref \<Rightarrow> element) \<Rightarrow> ref \<Rightarrow> ref list" where
  "descendants 0 h r = []"
| "descendants (Suc k) h r = concat (map (\<lambda>c. c # descendants k h c) (children (h r)))"

text \<open>
  \<open>querySelector\<close> for the two selectors the handlers use, a tag name and \<open>#id\<close>: the first
  descendant in document order that matches. The id is taken to be a CSS identifier.
\<close>

definition querySelector :: "(element \<Rightarrow> bool) \<Rightarrow> ref \<Rightarrow> app \<Rightarrow> ref option" where
  "querySelector p r s = List.find (\<lambda>d. p (heap s d)) (descendants (nextRef s) (heap s) r)"

definition hasTag :: "string \<Rightarrow> element \<Rightarrow> bool" where
  "hasTag tag e = (tagName e = tag)"

definition hasId :: "string \<Rightarrow> element \<Rightarrow> bool" where
  "hasId i e = (map_of (attributes e) ''id'' = Some i)"

text \<open>\<open>node.remove()\<close>.\<close>

definition removeNode :: "ref \<Rightarrow> app \<Rightarrow> app" where
  "removeNode n s =
     (case parentNode (heap s n) of
        None \<Rightarrow> s
      | Some p \<Rightarrow>
          update_element n (\<lambda>e. e\<lparr>parentNode := None\<rparr>)
            (update_element p (\<lambda>e. e\<lparr>children := removeAll n (children e)\<rparr>) s))"

text \<open>Insertion proper: the node leaves its old parent and enters the child list of the new one.\<close>

definition place :: "ref \<Rightarrow> ref \<Rightarrow> (ref list \<Rightarrow> ref list) \<Rightarrow> app \<Rightarrow> app" where
  "place parent node f s =
     update_element node (\<lambda>e. e\<lparr>parentNode := Some parent\<rparr>)
       (update_element parent (\<lambda>e. e\<lparr>children := f (children e)\<rparr>) (removeNode node s))"

definition insert_before :: "ref \<Rightarrow> ref \<Rightarrow> ref list \<Rightarrow> ref list" where
  "insert_before node child cs = takeWhile (\<lambda>c. c \<noteq> child) cs @ node # dropWhile (\<lambda>c. c \<noteq> child) cs"

definition appendChild :: "ref \<Rightarrow> ref \<Rightarrow> app \<Rightarrow> dom_error + app" where
  "appendChild parent node s =
     (if node \<in> set (ancestors (nextRef s) (heap s) parent) then Inl HierarchyRequestError
      else Inr (place parent node (\<lambda>cs. cs @ [node]) s))"

definition insertBefore :: "ref \<Rightarrow> ref \<Rightarrow> ref \<Rightarrow> app \<Rightarrow> dom_error + app" where
  "insertBefore parent node child s =
     (if node \<in> set (ancestors (nextRef s) (heap s) parent) then Inl HierarchyRequestError
      else if parentNode (heap s child) \<noteq> Some parent then Inl NotFoundError
      else if node = child then Inr s
      else Inr (place parent node (insert_before node child) s))"

text \<open>
  An element fresh from \<open>createElementNS\<close> has no descendant and is no existing node, so its
  insertion cannot be refused: for such a node the insertions are taken without the check.
\<close>

definition appendFresh :: "ref \<Rightarrow> ref \<Rightarrow> app \<Rightarrow> app" where
  "appendFresh parent node s = place parent node (\<lambda>cs. cs @ [node]) s"

definition prependFresh :: "ref \<Rightarrow> ref \<Rightarrow> app \<Rightarrow> app" where
  "prependFresh parent node s = place parent node (\<lambda>cs. node # cs) s"

definition insertFreshBefore :: "ref \<Rightarrow> ref \<Rightarrow> ref \<Rightarrow> app \<Rightarrow> app" where
  "insertFreshBefore parent node child s = place parent node (insert_before node child) s"

text \<open>\<open>old.replaceWith(node)\<close> for a fresh node.\<close>

definition replaceWith :: "ref \<Rightarrow> ref \<Rightarrow> app \<Rightarrow> app" where
  "replaceWith old node s =
     (case parentNode (heap s old) of
        None \<Rightarrow> s
      | Some p \<Rightarrow>
          update_element node (\<lambda>e. e\<lparr>parentNode := Some p\<rparr>)
            (update_element old (\<lambda>e. e\<lparr>parentNode := None\<rparr>)
               (update_element p (\<lambda>e. e\<lparr>children := map (\<lambda>c. if c = old then node else c) (children e)\<rparr>) s)))"

text \<open>\<open>node.innerHTML = ''\<close>: every child is detached.\<close>

definition clearChildren :: "ref \<Rightarrow> app \<Rightarrow> app" where
  "clearChildren r s =
     update_element r (\<lambda>e. e\<lparr>children := []\<rparr>)
       (fold (\<lambda>c. update_element c (\<lambda>e. e\<lparr>parentNode := None\<rparr>)) (children (heap s r)) s)"

section \<open>The editor\<close>

text \<open>
  Each handler of \<open>App.tsx\<close> is a function on the state it reads and writes: the live
  document under the canvas, its root \<open>svg\<close> element if there is one, the selection and the
  gradient panel. The serialised mirror \<open>svgContent\<close> and the layout, shadow and box panels
  are not part of the state here.
\<close>

subsection \<open>Selection: \<open>handleCanvasMouseDown\<close>\<close>

text \<open>\<open>svgEl\<close> is the result of \<open>target.closest('path, rect, circle, ellipse, text, g')\<close>.\<close>

definition handleCanvasMouseDown :: "ref option \<Rightarrow> bool \<Rightarrow> app \<Rightarrow> app" where
  "handleCanvasMouseDown svgEl shiftKey s =
     (case svgEl of
        None \<Rightarrow> s\<lparr>selectedElements := []\<rparr>
      | Some el \<Rightarrow>
          if tagName (heap s el) \<noteq> ''svg'' then
            s\<lparr>selectedElements :=
                (if shiftKey then
                   (if el \<in> set (selectedElements s)
                    then filter (\<lambda>item. item \<noteq> el) (selectedElements s)
                    else selectedElements s @ [el])
                 else [el])\<rparr>
          else s\<lparr>selectedElements := []\<rparr>)"

subsection \<open>Auto layout: \<open>runAutoLayout\<close>\<close>

definition translate :: "host \<Rightarrow> number \<Rightarrow> number \<Rightarrow> string" where
  "translate env a b = ''translate('' @ numberToString env a @ '', '' @ numberToString env b @ '')''"

text \<open>The body of the loop over the children; a child whose box cannot be measured is passed over.\<close>

definition layoutChild :: "host \<Rightarrow> string \<Rightarrow> number \<Rightarrow> number \<Rightarrow> ref \<Rightarrow> number \<times> app \<Rightarrow> number \<times> app" where
  "layoutChild env direction gap padding child st =
     (case st of (currentOffset, s) \<Rightarrow>
        (case getBBox env child of
           None \<Rightarrow> (currentOffset, s)
         | Some childBBox \<Rightarrow>
             if direction = ''horizontal''
             then (plus_number currentOffset (plus_number (Some (width childBBox)) gap),
                   setAttribute child ''transform'' (translate env currentOffset padding) s)
             else (plus_number currentOffset (plus_number (Some (height childBBox)) gap),
                   setAttribute child ''transform'' (translate env padding currentOffset) s)))"

definition layoutChildren :: "app \<Rightarrow> ref \<Rightarrow> ref list" where
  "layoutChildren s grp =
     filter (\<lambda>c. tagName (heap s c) \<noteq> ''title'' \<and> tagName (heap s c) \<noteq> ''desc'') (children (heap s grp))"

definition runAutoLayout :: "host \<Rightarrow> ref \<Rightarrow> app \<Rightarrow> app" where
  "runAutoLayout env grp s =
     (if getAttribute s grp ''data-layout'' \<noteq> Some ''flex'' then s
      else
        let direction = orElse (getAttribute s grp ''data-direction'') ''horizontal'';
            gap = parseInt (orElse (getAttribute s grp ''data-gap'') ''0'');
            padding = parseInt (orElse (getAttribute s grp ''data-padding'') ''0'')
        in snd (fold (layoutChild env direction gap padding) (layoutChildren s grp) (padding, s)))"

subsection \<open>Grouping: \<open>createAutoLayoutGroup\<close> and \<open>ungroup\<close>\<close>

text \<open>A DOM exception ends the handler; the result is then the exception.\<close>

fun appendAll :: "ref \<Rightarrow> ref list \<Rightarrow> app \<Rightarrow> dom_error + app" where
  "appendAll grp [] s = Inr s"
| "appendAll grp (el # els) s =
     (case appendChild grp el s of Inl e \<Rightarrow> Inl e | Inr s' \<Rightarrow> appendAll grp els s')"

fun insertAllBefore :: "ref \<Rightarrow> ref \<Rightarrow> ref list \<Rightarrow> app \<Rightarrow> dom_error + app" where
  "insertAllBefore parent grp [] s = Inr s"
| "insertAllBefore parent grp (child # cs) s =
     (case insertBefore parent child grp s of Inl e \<Rightarrow> Inl e | Inr s' \<Rightarrow> insertAllBefore parent grp cs s')"

definition newGroup :: "host \<Rightarrow> app \<Rightarrow> ref \<times> app" where
  "newGroup env s =
     (case createElementNS ''g'' s of (grp, s1) \<Rightarrow>
        (grp,
         setAttribute grp ''id'' (''layout-'' @ take 9 (drop 2 (randomBase36 env 0)))
           (setAttribute grp ''data-padding'' ''16''
             (setAttribute grp ''data-gap'' ''16''
               (setAttribute grp ''data-direction'' ''horizontal''
                 (setAttribute grp ''data-layout'' ''flex'' s1))))))"

definition createAutoLayoutGroup :: "host \<Rightarrow> app \<Rightarrow> dom_error + app" where
  "createAutoLayoutGroup env s =
     (if length (selectedElements s) < 2 then Inr s
      else
        (case rootSvg s of
           None \<Rightarrow> Inr s
         | Some svg \<Rightarrow>
             (case newGroup env s of (grp, s1) \<Rightarrow>
                let firstElem = hd (selectedElements s);
                    s2 = (case parentNode (heap s1 firstElem) of
                            None \<Rightarrow> s1
                          | Some p \<Rightarrow> insertFreshBefore p grp firstElem s1)
                in (case appendAll grp (selectedElements s) s2 of
                      Inl e \<Rightarrow> Inl e
                    | Inr s3 \<Rightarrow> Inr ((runAutoLayout env grp s3)\<lparr>selectedElements := [grp]\<rparr>)))))"

definition ungroup :: "app \<Rightarrow> dom_error + app" where
  "ungroup s =
     (case selectedElements s of
        [grp] \<Rightarrow>
          if tagName (heap s grp) \<noteq> ''g'' then Inr s
          else
            (case parentNode (heap s grp) of
               None \<Rightarrow> Inr s
             | Some parent \<Rightarrow>
                 let cs = children (heap s grp)
                 in (case insertAllBefore parent grp cs s of
                       Inl e \<Rightarrow> Inl e
                     | Inr s1 \<Rightarrow> Inr ((removeNode grp s1)\<lparr>selectedElements := cs\<rparr>)))
      | _ \<Rightarrow> Inr s)"

subsection \<open>Gradients: \<open>updateGradientProperty\<close>\<close>

datatype gradient_update =
  SetEnabled bool | SetType gradient_type | SetAngle real | SetStops "GradientStop list"

fun applyUpdate :: "gradient_update \<Rightarrow> GradientProps \<Rightarrow> GradientProps" where
  "applyUpdate (SetEnabled b) g = g\<lparr>enabled := b\<rparr>"
| "applyUpdate (SetType t) g = g\<lparr>gtype := t\<rparr>"
| "applyUpdate (SetAngle a) g = g\<lparr>angle := a\<rparr>"
| "applyUpdate (SetStops ss) g = g\<lparr>stops := ss\<rparr>"

definition gradientTag :: "gradient_type \<Rightarrow> string" where
  "gradientTag t = (if t = Linear then ''linearGradient'' else ''radialGradient'')"

definition elementId :: "app \<Rightarrow> ref \<Rightarrow> string" where
  "elementId s el = (case getAttribute s el ''id'' of None \<Rightarrow> [] | Some v \<Rightarrow> v)"

text \<open>The definitions container: found, or created and put first under the root.\<close>

definition ensureDefs :: "ref \<Rightarrow> app \<Rightarrow> ref \<times> app" where
  "ensureDefs svg s =
     (case querySelector (hasTag ''defs'') svg s of
        Some defs \<Rightarrow> (defs, s)
      | None \<Rightarrow> (case createElementNS ''defs'' s of (defs, s1) \<Rightarrow> (defs, prependFresh svg defs s1)))"

text \<open>The disabled branch of the loop over the selection, and the fill it writes.\<close>

definition restoredFill :: "app \<Rightarrow> ref \<Rightarrow> string" where
  "restoredFill s el =
     orElse (getAttribute s el ''data-orig-fill'') (orElse (getAttribute s el ''fill'') ''#cccccc'')"

definition restoreFill :: "ref \<Rightarrow> app \<Rightarrow> app" where
  "restoreFill el s = setAttribute el ''fill'' (restoredFill s el) s"

text \<open>The enabled branch, step by step.\<close>

definition recordOrigFill :: "ref \<Rightarrow> app \<Rightarrow> app" where
  "recordOrigFill el s =
     (if \<not> truthy (getAttribute s el ''data-orig-fill'')
      then setAttribute el ''data-orig-fill'' (orElse (getAttribute s el ''fill'') ''#cccccc'') s
      else s)"

definition gradientId :: "host \<Rightarrow> ref \<Rightarrow> nat \<Rightarrow> app \<Rightarrow> string \<times> nat" where
  "gradientId env el draws s =
     (if elementId s el \<noteq> [] then (''grad-'' @ elementId s el, draws)
      else (''grad-'' @ take 5 (drop 2 (randomBase36 env draws)), Suc draws))"

definition resolveGradEl :: "gradient_type \<Rightarrow> ref \<Rightarrow> string \<Rightarrow> app \<Rightarrow> ref \<times> app" where
  "resolveGradEl t defs gradId s =
     (case querySelector (hasId gradId) defs s of
        None \<Rightarrow>
          (case createElementNS (gradientTag t) s of (gradEl, s1) \<Rightarrow>
             (gradEl, appendFresh defs gradEl (setAttribute gradEl ''id'' gradId s1)))
      | Some gradEl \<Rightarrow>
          if toLowerCase (tagName (heap s gradEl)) \<noteq> toLowerCase (gradientTag t)
          then (case createElementNS (gradientTag t) s of (newGradEl, s1) \<Rightarrow>
                  (newGradEl, replaceWith gradEl newGradEl (setAttribute newGradEl ''id'' gradId s1)))
          else (gradEl, s))"

definition percent :: "host \<Rightarrow> number \<Rightarrow> string" where
  "percent env n = numberToString env n @ ''%''"

definition rounded :: "real \<Rightarrow> number" where
  "rounded v = Some (real_of_int (round v))"

definition setGeometry :: "host \<Rightarrow> GradientProps \<Rightarrow> ref \<Rightarrow> app \<Rightarrow> app" where
  "setGeometry env g gradEl s =
     (if gtype g = Linear then
        let rad = angle g * pi / 180
        in setAttribute gradEl ''y2'' (percent env (rounded (50 + cos rad * 50)))
             (setAttribute gradEl ''x2'' (percent env (rounded (50 + cos rad * 50)))
               (setAttribute gradEl ''y1'' (percent env (rounded (50 - sin rad * 50)))
                 (setAttribute gradEl ''x1'' (percent env (rounded (50 - cos rad * 50))) s)))
      else setAttribute gradEl ''r'' ''50%''
             (setAttribute gradEl ''cy'' ''50%'' (setAttribute gradEl ''cx'' ''50%'' s)))"

definition appendStop :: "host \<Rightarrow> ref \<Rightarrow> GradientStop \<Rightarrow> app \<Rightarrow> app" where
  "appendStop env gradEl stop s =
     (case createElementNS ''stop'' s of (stopEl, s1) \<Rightarrow>
        appendFresh gradEl stopEl
          (setAttribute stopEl ''stop-color'' (color stop)
            (setAttribute stopEl ''offset'' (percent env (offset stop)) s1)))"

definition applyGradient :: "host \<Rightarrow> GradientProps \<Rightarrow> ref \<Rightarrow> ref \<Rightarrow> nat \<times> app \<Rightarrow> nat \<times> app" where
  "applyGradient env g defs el st =
     (case st of (draws, s) \<Rightarrow>
        let s1 = recordOrigFill el s
        in (case gradientId env el draws s1 of (gradId, draws') \<Rightarrow>
              (case resolveGradEl (gtype g) defs gradId s1 of (gradEl, s2) \<Rightarrow>
                 (draws',
                  setAttribute el ''fill'' (''url(#'' @ gradId @ '')'')
                    (fold (appendStop env gradEl) (stops g)
                      (clearChildren gradEl (setGeometry env g gradEl s2)))))))"

definition gradientForEach :: "host \<Rightarrow> GradientProps \<Rightarrow> ref \<Rightarrow> ref \<Rightarrow> nat \<times> app \<Rightarrow> nat \<times> app" where
  "gradientForEach env g defs el st =
     (if \<not> enabled g then (fst st, restoreFill el (snd st)) else applyGradient env g defs el st)"

definition updateGradientProperty :: "host \<Rightarrow> gradient_update \<Rightarrow> app \<Rightarrow> app" where
  "updateGradientProperty env upd s =
     (if selectedElements s = [] then s
      else
        let newGradient = applyUpdate upd (gradientProps s);
            s0 = s\<lparr>gradientProps := newGradient\<rparr>
        in (case rootSvg s0 of
              None \<Rightarrow> s0
            | Some svg \<Rightarrow>
                (case ensureDefs svg s0 of (defs, s1) \<Rightarrow>
                   snd (fold (gradientForEach env newGradient defs) (selectedElements s1) (0, s1)))))"

text \<open>
  The paint servers of a call: the value of \<open>gradEl\<close> in each iteration of the loop over
  the selection, in order. \<open>gradientElements\<close> is empty when the loop does not run its
  enabled branch.
\<close>

definition gradElOf :: "host \<Rightarrow> GradientProps \<Rightarrow> ref \<Rightarrow> ref \<Rightarrow> nat \<times> app \<Rightarrow> ref" where
  "gradElOf env g defs el st =
     (case st of (draws, s) \<Rightarrow>
        let s1 = recordOrigFill el s
        in fst (resolveGradEl (gtype g) defs (fst (gradientId env el draws s1)) s1))"

fun paintServers :: "host \<Rightarrow> GradientProps \<Rightarrow> ref \<Rightarrow> ref list \<Rightarrow> nat \<times> app \<Rightarrow> ref list" where
  "paintServers env g defs [] st = []"
| "paintServers env g defs (el # els) st =
     gradElOf env g defs el st # paintServers env g defs els (applyGradient env g defs el st)"

definition gradientElements :: "host \<Rightarrow> gradient_update \<Rightarrow> app \<Rightarrow> ref list" where
  "gradientElements env upd s =
     (let newGradient = applyUpdate upd (gradientProps s);
          s0 = s\<lparr>gradientProps := newGradient\<rparr>
      in if \<not> enabled newGradient then []
         else
           (case rootSvg s0 of
              None \<Rightarrow> []
            | Some svg \<Rightarrow>
                (case ensureDefs svg s0 of (defs, s1) \<Rightarrow>
                   paintServers env newGradient defs (selectedElements s1) (0, s1))))"

text \<open>The four endpoint attributes of a node are those the descriptor gives.\<close>

definition linearEndpoints :: "host \<Rightarrow> GradientProps \<Rightarrow> app \<Rightarrow> ref \<Rightarrow> bool" where
  "linearEndpoints env g s gradEl =
     (getAttribute s gradEl ''x1'' = Some (percent env (rounded (50 - cos (angle g * pi / 180) * 50)))
      \<and> getAttribute s gradEl ''y1'' = Some (percent env (rounded (50 - sin (angle g * pi / 180) * 50)))
      \<and> getAttribute s gradEl ''x2'' = Some (percent env (rounded (50 + cos (angle g * pi / 180) * 50)))
      \<and> getAttribute s gradEl ''y2'' = Some (percent env (rounded (50 + cos (angle g * pi / 180) * 50))))"

text \<open>
  A document state is well formed when the children of every existing element are existing
  elements: no child list refers to an object that was never created.
\<close>

definition kids_ok :: "app \<Rightarrow> bool" where
  "kids_ok s = (\<forall>r<nextRef s. \<forall>c\<in>set (children (heap s r)). c < nextRef s)"

definition removeGradientStop :: "host \<Rightarrow> nat \<Rightarrow> app \<Rightarrow> app" where
  "removeGradientStop env index s =
     (if length (stops (gradientProps s)) \<le> 2 then s
      else
        updateGradientProperty env
          (SetStops (map snd (filter (\<lambda>p. fst p \<noteq> index) (enumerate 0 (stops (gradientProps s)))))) s)"

subsection \<open>The selection effect, gradient panel\<close>

text \<open>
  The part of the effect on \<open>selectedElements\<close> that writes \<open>gradientProps\<close>: the early return
  on an empty selection and the block that reads the first element's fill.
\<close>

definition readStop :: "app \<Rightarrow> ref \<Rightarrow> GradientStop" where
  "readStop s st =
     \<lparr>offset = parseInt (orElse (getAttribute s st ''offset'') ''0''),
      color = orElse (getAttribute s st ''stop-color'') ''#000000''\<rparr>"

definition gradientFromSelection :: "app \<Rightarrow> app" where
  "gradientFromSelection s =
     (case selectedElements s of
        [] \<Rightarrow> s
      | firstEl # rest \<Rightarrow>
          (case getAttribute s firstEl ''fill'' of
             None \<Rightarrow> s\<lparr>gradientProps := (gradientProps s)\<lparr>enabled := False\<rparr>\<rparr>
           | Some fill \<Rightarrow>
               if fill \<noteq> [] \<and> prefix ''url(#'' fill then
                 let gradId = butlast (drop 5 fill)
                 in (case (case rootSvg s of None \<Rightarrow> None | Some svg \<Rightarrow> querySelector (hasId gradId) svg s) of
                       None \<Rightarrow> s
                     | Some gradEl \<Rightarrow>
                         let found = map (readStop s)
                               (filter (\<lambda>d. tagName (heap s d) = ''stop'') (descendants (nextRef s) (heap s) gradEl))
                         in s\<lparr>gradientProps :=
                               \<lparr>enabled = True,
                                gtype = (if str_includes (toLowerCase (tagName (heap s gradEl))) ''linear''
                                         then Linear else Radial),
                                angle = 90,
                                stops = (if found \<noteq> [] then found else stops (gradientProps s))\<rparr>\<rparr>)
               else s\<lparr>gradientProps := (gradientProps s)\<lparr>enabled := False\<rparr>\<rparr>))"

section \<open>Example documents\<close>

text \<open>
  A host whose \<open>String\<close> is \<open>decimalString\<close>, whose elements all measure 10 by 5 and whose
  random text is constant, and a small document: a root with two rectangles and a circle.
\<close>

definition exampleHost :: host where
  "exampleHost =
     \<lparr>getBBox = (\<lambda>r. Some \<lparr>box_x = 0, box_y = 0, width = 10, height = 5\<rparr>),
      numberToString = decimalString,
      randomBase36 = (\<lambda>i. ''0.4fzyo82mvyr'')\<rparr>"

definition blankElement :: element where
  "blankElement = \<lparr>tagName = [], attributes = [], children = [], parentNode = None\<rparr>"

definition initialGradient :: GradientProps where
  "initialGradient =
     \<lparr>enabled = False, gtype = Linear, angle = 90,
      stops = [\<lparr>offset = Some 0, color = ''#6366f1''\<rparr>, \<lparr>offset = Some 100, color = ''#a855f7''\<rparr>]\<rparr>"

definition exampleHeap :: "ref \<Rightarrow> element" where
  "exampleHeap =
     (\<lambda>r. blankElement)
       (0 := \<lparr>tagName = ''svg'', attributes = [], children = [1, 2, 3], parentNode = None\<rparr>,
        1 := \<lparr>tagName = ''rect'', attributes = [(''fill'', ''#ff0000'')], children = [], parentNode = Some 0\<rparr>,
        2 := \<lparr>tagName = ''rect'', attributes = [(''id'', ''b''), (''fill'', ''#00ff00'')], children = [], parentNode = Some 0\<rparr>,
        3 := \<lparr>tagName = ''circle'', attributes = [], children = [], parentNode = Some 0\<rparr>)"

definition exampleApp :: "ref list \<Rightarrow> app" where
  "exampleApp sel =
     \<lparr>heap = exampleHeap, nextRef = 4, rootSvg = Some 0, selectedElements = sel,
      gradientProps = initialGradient\<rparr>"

text \<open>Two errors of the backend: a rate limit and a missing entity.\<close>

definition quota429 :: api_error where
  "quota429 = \<lparr>status = Some 429, errorString = ''{}''\<rparr>"

definition entityMissing :: api_error where
  "entityMissing = \<lparr>status = None, errorString = ''{\"message\":\"Requested entity was not found.\"}''\<rparr>"

text \<open>
  The same document after a gradient was given to the first rectangle: its fill refers to a
  paint server and its first fill is recorded. In \<open>danglingApp\<close> the fill refers to a paint
  server that is not in the document, while the panel still shows an enabled gradient.
\<close>

definition paintedHeap :: "ref \<Rightarrow> element" where
  "paintedHeap =
     exampleHeap
       (0 := \<lparr>tagName = ''svg'', attributes = [], children = [4, 1, 2, 3], parentNode = None\<rparr>,
        1 := \<lparr>tagName = ''rect'',
              attributes = [(''fill'', ''url(#grad-a)''), (''id'', ''a''), (''data-orig-fill'', ''#ff0000'')],
              children = [], parentNode = Some 0\<rparr>,
        4 := \<lparr>tagName = ''defs'', attributes = [], children = [5], parentNode = Some 0\<rparr>,
        5 := \<lparr>tagName = ''linearGradient'', attributes = [(''id'', ''grad-a'')], children = [],
              parentNode = Some 4\<rparr>)"

definition paintedApp :: "ref list \<Rightarrow> app" where
  "paintedApp sel =
     \<lparr>heap = paintedHeap, nextRef = 6, rootSvg = Some 0, selectedElements = sel,
      gradientProps = initialGradient\<lparr>enabled := True\<rparr>\<rparr>"

definition danglingApp :: app where
  "danglingApp =
     \<lparr>heap = exampleHeap(1 := \<lparr>tagName = ''rect'', attributes = [(''fill'', ''url(#gone)'')],
                                children = [], parentNode = Some 0\<rparr>),
      nextRef = 4, rootSvg = Some 0, selectedElements = [1],
      gradientProps = initialGradient\<lparr>enabled := True\<rparr>\<rparr>"

text \<open>
  A layout container with a title and two rectangles, its gap given as the attribute text, and
  a host for which every element is a hairline of width 0.
\<close>

definition rowApp :: "string \<Rightarrow> app" where
  "rowApp gapText =
     \<lparr>heap = (\<lambda>r. blankElement)
        (0 := \<lparr>tagName = ''svg'', attributes = [], children = [1], parentNode = None\<rparr>,
         1 := \<lparr>tagName = ''g'',
               attributes = [(''data-layout'', ''flex''), (''data-direction'', ''horizontal''),
                             (''data-gap'', gapText), (''data-padding'', ''16'')],
               children = [2, 3, 4], parentNode = Some 0\<rparr>,
         2 := \<lparr>tagName = ''title'', attributes = [], children = [], parentNode = Some 1\<rparr>,
         3 := \<lparr>tagName = ''rect'', attributes = [], children = [], parentNode = Some 1\<rparr>,
         4 := \<lparr>tagName = ''rect'', attributes = [], children = [], parentNode = Some 1\<rparr>),
      nextRef = 5, rootSvg = Some 0, selectedElements = [1], gradientProps = initialGradient\<rparr>"

definition hairlineHost :: host where
  "hairlineHost = exampleHost\<lparr>getBBox := (\<lambda>r. Some \<lparr>box_x = 0, box_y = 0, width = 0, height = 5\<rparr>)\<rparr>"

section \<open>Retry and selection\<close>

lemma withRetry_loop_skip:
  assumes "i + k \<le> maxRetries" and "\<forall>j<k. retryable (fn (i + j))"
  shows "withRetry_loop fn maxRetries i d sl =
         withRetry_loop fn maxRetries (i + k) (d * 2 ^ k) (sl @ map (\<lambda>j. d * 2 ^ j) [0..<k])"
  using assms
proof (induction k arbitrary: i d sl)
  case 0
  then show ?case by simp
next
  case (Suc k)
  have r: "retryable (fn i)" using Suc.prems(2)[rule_format, of 0] by simp
  have lt: "i < maxRetries" using Suc.prems(1) by simp
  have step: "withRetry_loop fn maxRetries i d sl = withRetry_loop fn maxRetries (i + 1) (d * 2) (sl @ [d])"
    using r lt by (subst withRetry_loop.simps) (auto simp: retryable_def split: sum.splits)
  have "\<forall>j<k. retryable (fn (i + 1 + j))"
  proof (intro allI impI)
    fix j assume "j < k"
    then have "retryable (fn (i + Suc j))" using Suc.prems(2)[rule_format, of "Suc j"] by simp
    then show "retryable (fn (i + 1 + j))" by simp
  qed
  moreover have "i + 1 + k \<le> maxRetries" using Suc.prems(1) by simp
  ultimately have "withRetry_loop fn maxRetries (i + 1) (d * 2) (sl @ [d])
      = withRetry_loop fn maxRetries (i + 1 + k) (d * 2 * 2 ^ k) ((sl @ [d]) @ map (\<lambda>j. d * 2 * 2 ^ j) [0..<k])"
    using Suc.IH by blast
  moreover have "d # map (\<lambda>j. d * 2 * 2 ^ j) [0..<k] = map (\<lambda>j. d * 2 ^ j) [0..<Suc k]"
    by (simp add: upt_rec[of 0] map_Suc_upt[symmetric] del: upt_Suc)
  ultimately show ?case using step by (simp add: mult.assoc del: upt_Suc)
qed

text \<open>
  C8. Let the first \<open>k\<close> attempts fail with quota errors that are not entity errors, \<open>k\<close> within
  the retry bound, and let attempt \<open>k\<close> be the last retry or not such a failure. Then
  \<open>withRetry\<close> has slept the delays 2000, 4000, ... doubling, \<open>k\<close> of them, has called \<open>fn\<close>
  exactly \<open>k + 1\<close> times, and settles with what attempt \<open>k\<close> gave: its value, the error
  \<open>ENTITY_NOT_FOUND\<close> for an entity error, the error itself otherwise. So a quota failure
  is retried at most \<open>maxRetries\<close> times before it is surfaced, and an entity error ends the
  loop in the attempt that meets it.
\<close>

theorem withRetry_outcome:
  assumes "k \<le> maxRetries"
    and "\<forall>j<k. retryable (fn j)"
    and "k = maxRetries \<or> \<not> retryable (fn k)"
  shows "withRetry fn maxRetries =
     ((case fn k of
         Inr v \<Rightarrow> Returned v
       | Inl error \<Rightarrow>
           if isEntityError error then Thrown (NewError ''ENTITY_NOT_FOUND'') else Thrown (Rethrown error)),
      map (\<lambda>j. 2000 * 2 ^ j) [0..<k], Suc k)"
proof -
  have "withRetry fn maxRetries =
        withRetry_loop fn maxRetries k (2000 * 2 ^ k) (map (\<lambda>j. 2000 * 2 ^ j) [0..<k])"
    unfolding withRetry_def using withRetry_loop_skip[of 0 k maxRetries fn 2000 "[]"] assms(1,2) by simp
  also have "\<dots> = ((case fn k of
         Inr v \<Rightarrow> Returned v
       | Inl error \<Rightarrow>
           if isEntityError error then Thrown (NewError ''ENTITY_NOT_FOUND'') else Thrown (Rethrown error)),
      map (\<lambda>j. 2000 * 2 ^ j) [0..<k], Suc k)"
    using assms(1,3) by (subst withRetry_loop.simps) (auto simp: retryable_def split: sum.splits)
  finally show ?thesis .
qed

lemma retryable_quota429: "retryable (Inl quota429 :: api_error + unit)"
  by (simp add: retryable_def quota429_def isQuotaError_def isEntityError_def)

lemma entity_entityMissing: "isEntityError entityMissing"
  by (simp add: entityMissing_def isEntityError_def)

theorem withRetry_outcome_witness:
  "withRetry (\<lambda>i. Inl quota429 :: api_error + unit) 2 = (Thrown (Rethrown quota429), [2000, 4000], 3)
   \<and> withRetry (\<lambda>i. Inl entityMissing :: api_error + unit) 2 = (Thrown (NewError ''ENTITY_NOT_FOUND''), [], 1)"
proof
  have e: "\<not> isEntityError quota429" by (simp add: quota429_def isEntityError_def)
  have "map (\<lambda>j. 2000 * 2 ^ j) [0..<2] = [2000, 4000::nat]" by (simp add: upt_rec)
  then show "withRetry (\<lambda>i. Inl quota429 :: api_error + unit) 2 = (Thrown (Rethrown quota429), [2000, 4000], 3)"
    using withRetry_outcome[of 2 2 "\<lambda>i. Inl quota429 :: api_error + unit"] retryable_quota429 e
    by (simp add: numeral_3_eq_3)
next
  show "withRetry (\<lambda>i. Inl entityMissing :: api_error + unit) 2 = (Thrown (NewError ''ENTITY_NOT_FOUND''), [], 1)"
    using withRetry_outcome[of 0 2 "\<lambda>i. Inl entityMissing :: api_error + unit"] entity_entityMissing
    by (simp add: retryable_def)
qed

lemma filter_neq_removeAll: "filter (\<lambda>item. item \<noteq> el) xs = removeAll el xs"
  by (induction xs) auto

text \<open>
  C7. A click on an eligible node with the shift key removes the node from the selection when
  it is selected, the others keeping their places, and appends it when it is not; a click
  without the shift key makes the selection the node alone. Nothing else of the state changes.
\<close>

theorem click_selection:
  assumes "tagName (heap s el) \<noteq> ''svg''"
  shows "handleCanvasMouseDown (Some el) True s =
           s\<lparr>selectedElements :=
               (if el \<in> set (selectedElements s) then removeAll el (selectedElements s)
                else selectedElements s @ [el])\<rparr>
         \<and> handleCanvasMouseDown (Some el) False s = s\<lparr>selectedElements := [el]\<rparr>"
  using assms by (simp add: handleCanvasMouseDown_def filter_neq_removeAll)

theorem click_selection_witness:
  "handleCanvasMouseDown (Some 2) True (exampleApp [1, 2, 3]) = exampleApp [1, 3]
   \<and> handleCanvasMouseDown (Some 2) True (exampleApp [1, 3]) = exampleApp [1, 3, 2]
   \<and> handleCanvasMouseDown (Some 2) False (exampleApp [1, 3]) = exampleApp [2]"
  using click_selection[of "exampleApp [1, 2, 3]" 2] click_selection[of "exampleApp [1, 3]" 2]
  by (simp add: exampleApp_def exampleHeap_def)

section \<open>Facts about the primitives\<close>

lemma update_element_simps [simp]:
  "heap (update_element r f s) = (heap s)(r := f (heap s r))"
  "nextRef (update_element r f s) = nextRef s"
  "rootSvg (update_element r f s) = rootSvg s"
  "selectedElements (update_element r f s) = selectedElements s"
  "gradientProps (update_element r f s) = gradientProps s"
  by (simp_all add: update_element_def)

lemma setAttribute_fields [simp]:
  "nextRef (setAttribute r k v s) = nextRef s"
  "rootSvg (setAttribute r k v s) = rootSvg s"
  "selectedElements (setAttribute r k v s) = selectedElements s"
  "gradientProps (setAttribute r k v s) = gradientProps s"
  "tagName (heap (setAttribute r k v s) q) = tagName (heap s q)"
  "children (heap (setAttribute r k v s) q) = children (heap s q)"
  "parentNode (heap (setAttribute r k v s) q) = parentNode (heap s q)"
  by (simp_all add: setAttribute_def)

lemma getAttribute_setAttribute [simp]:
  "getAttribute (setAttribute r k v s) q k' =
     (if q = r \<and> k' = k then Some v else getAttribute s q k')"
  by (simp add: getAttribute_def setAttribute_def update_conv')

lemma restoreFill_fields [simp]:
  "nextRef (restoreFill el s) = nextRef s"
  "rootSvg (restoreFill el s) = rootSvg s"
  "selectedElements (restoreFill el s) = selectedElements s"
  "gradientProps (restoreFill el s) = gradientProps s"
  "tagName (heap (restoreFill el s) q) = tagName (heap s q)"
  "children (heap (restoreFill el s) q) = children (heap s q)"
  "parentNode (heap (restoreFill el s) q) = parentNode (heap s q)"
  by (simp_all add: restoreFill_def)

lemma exampleHeap_simps [simp]:
  "exampleHeap 0 = \<lparr>tagName = ''svg'', attributes = [], children = [1, 2, 3], parentNode = None\<rparr>"
  "exampleHeap (Suc 0) = \<lparr>tagName = ''rect'', attributes = [(''fill'', ''#ff0000'')], children = [], parentNode = Some 0\<rparr>"
  "exampleHeap 2 = \<lparr>tagName = ''rect'', attributes = [(''id'', ''b''), (''fill'', ''#00ff00'')], children = [], parentNode = Some 0\<rparr>"
  "exampleHeap 3 = \<lparr>tagName = ''circle'', attributes = [], children = [], parentNode = Some 0\<rparr>"
  by (simp_all add: exampleHeap_def)

lemma createElementNS_simps [simp]:
  "fst (createElementNS tag s) = nextRef s"
  "nextRef (snd (createElementNS tag s)) = Suc (nextRef s)"
  "rootSvg (snd (createElementNS tag s)) = rootSvg s"
  "selectedElements (snd (createElementNS tag s)) = selectedElements s"
  "gradientProps (snd (createElementNS tag s)) = gradientProps s"
  "heap (snd (createElementNS tag s)) =
     (heap s)(nextRef s := \<lparr>tagName = tag, attributes = [], children = [], parentNode = None\<rparr>)"
  by (simp_all add: createElementNS_def)

lemma removeNode_fields [simp]:
  "nextRef (removeNode n s) = nextRef s"
  "rootSvg (removeNode n s) = rootSvg s"
  "selectedElements (removeNode n s) = selectedElements s"
  "gradientProps (removeNode n s) = gradientProps s"
  "tagName (heap (removeNode n s) q) = tagName (heap s q)"
  "attributes (heap (removeNode n s) q) = attributes (heap s q)"
  by (simp_all add: removeNode_def split: option.split)

lemma place_fields [simp]:
  "nextRef (place p n f s) = nextRef s"
  "rootSvg (place p n f s) = rootSvg s"
  "selectedElements (place p n f s) = selectedElements s"
  "gradientProps (place p n f s) = gradientProps s"
  "tagName (heap (place p n f s) q) = tagName (heap s q)"
  "attributes (heap (place p n f s) q) = attributes (heap s q)"
  by (simp_all add: place_def)

lemma replaceWith_fields [simp]:
  "nextRef (replaceWith old n s) = nextRef s"
  "rootSvg (replaceWith old n s) = rootSvg s"
  "selectedElements (replaceWith old n s) = selectedElements s"
  "gradientProps (replaceWith old n s) = gradientProps s"
  "tagName (heap (replaceWith old n s) q) = tagName (heap s q)"
  "attributes (heap (replaceWith old n s) q) = attributes (heap s q)"
  by (simp_all add: replaceWith_def split: option.split)

lemma fold_detach_fields [simp]:
  "nextRef (fold (\<lambda>c. update_element c (\<lambda>e. e\<lparr>parentNode := None\<rparr>)) cs s) = nextRef s"
  "rootSvg (fold (\<lambda>c. update_element c (\<lambda>e. e\<lparr>parentNode := None\<rparr>)) cs s) = rootSvg s"
  "selectedElements (fold (\<lambda>c. update_element c (\<lambda>e. e\<lparr>parentNode := None\<rparr>)) cs s) = selectedElements s"
  "gradientProps (fold (\<lambda>c. update_element c (\<lambda>e. e\<lparr>parentNode := None\<rparr>)) cs s) = gradientProps s"
  "tagName (heap (fold (\<lambda>c. update_element c (\<lambda>e. e\<lparr>parentNode := None\<rparr>)) cs s) q) = tagName (heap s q)"
  "attributes (heap (fold (\<lambda>c. update_element c (\<lambda>e. e\<lparr>parentNode := None\<rparr>)) cs s) q) = attributes (heap s q)"
  "children (heap (fold (\<lambda>c. update_element c (\<lambda>e. e\<lparr>parentNode := None\<rparr>)) cs s) q) = children (heap s q)"
  by (induction cs arbitrary: s; simp)+

lemma clearChildren_fields [simp]:
  "nextRef (clearChildren r s) = nextRef s"
  "rootSvg (clearChildren r s) = rootSvg s"
  "selectedElements (clearChildren r s) = selectedElements s"
  "gradientProps (clearChildren r s) = gradientProps s"
  "tagName (heap (clearChildren r s) q) = tagName (heap s q)"
  "attributes (heap (clearChildren r s) q) = attributes (heap s q)"
  by (simp_all add: clearChildren_def)

lemma getAttribute_cong_attributes:
  "attributes (heap s q) = attributes (heap t q) \<Longrightarrow> getAttribute s q k = getAttribute t q k"
  by (simp add: getAttribute_def)

lemma getAttribute_structural [simp]:
  "getAttribute (removeNode n s) q k = getAttribute s q k"
  "getAttribute (place p n f s) q k = getAttribute s q k"
  "getAttribute (replaceWith old n s) q k = getAttribute s q k"
  "getAttribute (clearChildren r s) q k = getAttribute s q k"
  "getAttribute (s\<lparr>gradientProps := g\<rparr>) q k = getAttribute s q k"
  "getAttribute (s\<lparr>selectedElements := sel\<rparr>) q k = getAttribute s q k"
  by (simp_all add: getAttribute_def)

lemma getAttribute_createElementNS [simp]:
  "getAttribute (snd (createElementNS tag s)) q k = (if q = nextRef s then None else getAttribute s q k)"
  by (simp add: getAttribute_def)

lemma querySelector_gradientProps [simp]:
  "querySelector p r (s\<lparr>gradientProps := g\<rparr>) = querySelector p r s"
  by (simp add: querySelector_def)

subsection \<open>The definitions container\<close>

lemma ensureDefs_absent:
  assumes "querySelector (hasTag ''defs'') svg s = None"
  shows "ensureDefs svg s = (nextRef s, prependFresh svg (nextRef s) (snd (createElementNS ''defs'' s)))"
  using assms by (simp add: ensureDefs_def createElementNS_def)

lemma ensureDefs_attributes:
  "q < nextRef s \<Longrightarrow> getAttribute (snd (ensureDefs svg s)) q k = getAttribute s q k"
  by (auto simp: ensureDefs_def prependFresh_def split: option.split prod.split)
     (metis createElementNS_simps(1) fst_conv getAttribute_createElementNS nat_neq_iff snd_conv)

lemma ensureDefs_fields [simp]:
  "rootSvg (snd (ensureDefs svg s)) = rootSvg s"
  "selectedElements (snd (ensureDefs svg s)) = selectedElements s"
  "gradientProps (snd (ensureDefs svg s)) = gradientProps s"
  by (auto simp: ensureDefs_def prependFresh_def createElementNS_def split: option.split prod.split)

lemma descendants_numeral [simp]:
  "descendants (numeral k) h r = concat (map (\<lambda>c. c # descendants (pred_numeral k) h c) (children (h r)))"
  by (simp add: numeral_eq_Suc)

lemma ancestors_numeral [simp]:
  "ancestors (numeral k) h n = n # (case parentNode (h n) of None \<Rightarrow> [] | Some p \<Rightarrow> ancestors (pred_numeral k) h p)"
  by (simp add: numeral_eq_Suc)


section \<open>Rejected operations\<close>

text \<open>
  C5. Grouping with fewer than two selected elements, ungrouping when the selection is not
  exactly one \<open>g\<close> element, and removing a stop when two or fewer stops are present each
  return normally and leave the whole state as it was: the document, the selection and the
  stop list.
\<close>

theorem rejected_operations_are_noops:
  "(length (selectedElements s) < 2 \<longrightarrow> createAutoLayoutGroup env s = Inr s)
   \<and> (length (selectedElements s) \<noteq> 1 \<or> tagName (heap s (hd (selectedElements s))) \<noteq> ''g''
        \<longrightarrow> ungroup s = Inr s)
   \<and> (length (stops (gradientProps s)) \<le> 2 \<longrightarrow> removeGradientStop env index s = s)"
proof (intro conjI impI)
  show "createAutoLayoutGroup env s = Inr s" if "length (selectedElements s) < 2"
    using that by (simp add: createAutoLayoutGroup_def)
  show "ungroup s = Inr s"
    if "length (selectedElements s) \<noteq> 1 \<or> tagName (heap s (hd (selectedElements s))) \<noteq> ''g''"
    using that by (auto simp: ungroup_def split: list.splits)
  show "removeGradientStop env index s = s" if "length (stops (gradientProps s)) \<le> 2"
    using that by (simp add: removeGradientStop_def)
qed

theorem rejected_operations_witness:
  "createAutoLayoutGroup exampleHost (exampleApp [1]) = Inr (exampleApp [1])
   \<and> ungroup (exampleApp [1]) = Inr (exampleApp [1])
   \<and> removeGradientStop exampleHost 0 (exampleApp [1]) = exampleApp [1]"
  using rejected_operations_are_noops[of "exampleApp [1]" exampleHost 0]
  by (simp add: exampleApp_def initialGradient_def)

section \<open>Gradients: the disabled branch\<close>

lemma fold_disabled_structure:
  assumes "\<not> enabled g"
  shows "children (heap (snd (fold (gradientForEach env g defs) sel st)) q) = children (heap (snd st) q)
       \<and> tagName (heap (snd (fold (gradientForEach env g defs) sel st)) q) = tagName (heap (snd st) q)
       \<and> parentNode (heap (snd (fold (gradientForEach env g defs) sel st)) q) = parentNode (heap (snd st) q)
       \<and> nextRef (snd (fold (gradientForEach env g defs) sel st)) = nextRef (snd st)"
  using assms by (induction sel arbitrary: st) (simp_all add: gradientForEach_def)

lemma getAttribute_restoreFill:
  "getAttribute (restoreFill el s) q k =
     (if q = el \<and> k = ''fill'' then Some (restoredFill s el) else getAttribute s q k)"
  by (simp add: restoreFill_def)

lemma restoredFill_restoreFill: "restoredFill (restoreFill el' s) el = restoredFill s el"
  by (auto simp: restoredFill_def getAttribute_restoreFill orElse_def split: option.splits)

lemma fold_disabled_attributes:
  assumes "\<not> enabled g"
  shows "getAttribute (snd (fold (gradientForEach env g defs) sel st)) el ''data-orig-fill''
           = getAttribute (snd st) el ''data-orig-fill''
       \<and> restoredFill (snd (fold (gradientForEach env g defs) sel st)) el = restoredFill (snd st) el
       \<and> getAttribute (snd (fold (gradientForEach env g defs) sel st)) el ''fill''
           = (if el \<in> set sel then Some (restoredFill (snd st) el) else getAttribute (snd st) el ''fill'')"
  using assms
proof (induction sel arbitrary: st)
  case Nil
  then show ?case by simp
next
  case (Cons a sel)
  let ?st = "gradientForEach env g defs a st"
  have s: "snd ?st = restoreFill a (snd st)" using Cons.prems by (simp add: gradientForEach_def)
  have "fold (gradientForEach env g defs) (a # sel) st = fold (gradientForEach env g defs) sel ?st" by simp
  moreover note Cons.IH[OF Cons.prems, of ?st]
  ultimately show ?case
    by (auto simp: s getAttribute_restoreFill restoredFill_restoreFill)
qed

lemma prependFresh_created:
  assumes "svg \<noteq> nextRef s"
  shows "heap (prependFresh svg (nextRef s) (snd (createElementNS tag s))) =
     (heap s)(svg := (heap s svg)\<lparr>children := nextRef s # children (heap s svg)\<rparr>,
              nextRef s := \<lparr>tagName = tag, attributes = [], children = [], parentNode = Some svg\<rparr>)"
  using assms by (simp add: prependFresh_def place_def removeNode_def fun_upd_twist)

text \<open>
  C9. Let the selection be non-empty, the document have a root but no \<open>defs\<close> element, and
  the updated descriptor be disabled. Then \<open>updateGradientProperty\<close> still creates a \<open>defs\<close>
  element with no children and puts it first among the children of the root.
\<close>

theorem disabled_update_creates_defs:
  assumes "selectedElements s \<noteq> []"
    and "rootSvg s = Some svg"
    and "svg < nextRef s"
    and "querySelector (hasTag ''defs'') svg s = None"
    and "\<not> enabled (applyUpdate upd (gradientProps s))"
  shows "children (heap (updateGradientProperty env upd s) svg) = nextRef s # children (heap s svg)
       \<and> tagName (heap (updateGradientProperty env upd s) (nextRef s)) = ''defs''
       \<and> children (heap (updateGradientProperty env upd s) (nextRef s)) = []
       \<and> parentNode (heap (updateGradientProperty env upd s) (nextRef s)) = Some svg
       \<and> nextRef (updateGradientProperty env upd s) = Suc (nextRef s)"
proof -
  let ?g = "applyUpdate upd (gradientProps s)"
  let ?s0 = "s\<lparr>gradientProps := ?g\<rparr>"
  let ?s1 = "prependFresh svg (nextRef s) (snd (createElementNS ''defs'' ?s0))"
  have q: "querySelector (hasTag ''defs'') svg ?s0 = None" using assms(4) by simp
  have e: "ensureDefs svg ?s0 = (nextRef s, ?s1)" using ensureDefs_absent[OF q] by simp
  have u: "updateGradientProperty env upd s
             = snd (fold (gradientForEach env ?g (nextRef s)) (selectedElements s) (0, ?s1))"
    using assms(1,2) e by (simp add: updateGradientProperty_def Let_def prependFresh_def)
  have h: "heap ?s1 = (heap s)(svg := (heap s svg)\<lparr>children := nextRef s # children (heap s svg)\<rparr>,
              nextRef s := \<lparr>tagName = ''defs'', attributes = [], children = [], parentNode = Some svg\<rparr>)"
    using prependFresh_created[of svg ?s0 "''defs''"] assms(3) by simp
  have n: "nextRef ?s1 = Suc (nextRef s)" by (simp add: prependFresh_def)
  show ?thesis
    unfolding u using fold_disabled_structure[OF assms(5), of env "nextRef s" "selectedElements s" "(0, ?s1)"]
      assms(3) by (simp add: h n)
qed

lemma disabled_update_attributes:
  assumes "el \<in> set (selectedElements s)"
    and "rootSvg s = Some svg"
    and "el < nextRef s"
    and "\<not> enabled (applyUpdate upd (gradientProps s))"
  shows "getAttribute (updateGradientProperty env upd s) el ''fill'' = Some (restoredFill s el)"
    and "getAttribute (updateGradientProperty env upd s) el ''data-orig-fill'' = getAttribute s el ''data-orig-fill''"
proof -
  let ?g = "applyUpdate upd (gradientProps s)"
  let ?s0 = "s\<lparr>gradientProps := ?g\<rparr>"
  let ?defs = "fst (ensureDefs svg ?s0)"
  let ?s1 = "snd (ensureDefs svg ?s0)"
  have ne: "selectedElements s \<noteq> []" using assms(1) by auto
  have u: "updateGradientProperty env upd s
             = snd (fold (gradientForEach env ?g ?defs) (selectedElements s) (0, ?s1))"
    using ne assms(2) by (simp add: updateGradientProperty_def Let_def case_prod_beta)
  have a: "getAttribute ?s1 el k = getAttribute s el k" for k
    using ensureDefs_attributes[of el ?s0 svg k] assms(3) by simp
  have r: "restoredFill ?s1 el = restoredFill s el" by (simp add: restoredFill_def a)
  note f = fold_disabled_attributes[OF assms(4), of env ?defs "selectedElements s" "(0, ?s1)" el]
  show "getAttribute (updateGradientProperty env upd s) el ''fill'' = Some (restoredFill s el)"
    unfolding u using f assms(1) r by simp
  show "getAttribute (updateGradientProperty env upd s) el ''data-orig-fill'' = getAttribute s el ''data-orig-fill''"
    unfolding u using f a by simp
qed

lemma paintedHeap_simps [simp]:
  "paintedHeap 0 = \<lparr>tagName = ''svg'', attributes = [], children = [4, 1, 2, 3], parentNode = None\<rparr>"
  "paintedHeap (Suc 0) = \<lparr>tagName = ''rect'',
              attributes = [(''fill'', ''url(#grad-a)''), (''id'', ''a''), (''data-orig-fill'', ''#ff0000'')],
              children = [], parentNode = Some 0\<rparr>"
  "paintedHeap 2 = \<lparr>tagName = ''rect'', attributes = [(''id'', ''b''), (''fill'', ''#00ff00'')], children = [], parentNode = Some 0\<rparr>"
  "paintedHeap 3 = \<lparr>tagName = ''circle'', attributes = [], children = [], parentNode = Some 0\<rparr>"
  "paintedHeap 4 = \<lparr>tagName = ''defs'', attributes = [], children = [5], parentNode = Some 0\<rparr>"
  "paintedHeap 5 = \<lparr>tagName = ''linearGradient'', attributes = [(''id'', ''grad-a'')], children = [],
              parentNode = Some 4\<rparr>"
  by (simp_all add: paintedHeap_def)

text \<open>
  C3, as the code has it. Let the document have a root and the updated descriptor be disabled.
  Then every selected element gets as fill its recorded original fill; when none is recorded it
  keeps the fill it has, and gets \<open>#cccccc\<close> only when it has no fill either. The recorded
  original stays on the element.
\<close>

theorem disabled_update_restores_fill:
  assumes "el \<in> set (selectedElements s)"
    and "rootSvg s = Some svg"
    and "el < nextRef s"
    and "\<not> enabled (applyUpdate upd (gradientProps s))"
  shows "getAttribute (updateGradientProperty env upd s) el ''fill''
           = Some (orElse (getAttribute s el ''data-orig-fill'') (orElse (getAttribute s el ''fill'') ''#cccccc''))
       \<and> getAttribute (updateGradientProperty env upd s) el ''data-orig-fill''
           = getAttribute s el ''data-orig-fill''"
  using disabled_update_attributes[OF assms] by (simp add: restoredFill_def)

theorem disabled_update_restores_fill_witness:
  "getAttribute (updateGradientProperty exampleHost (SetEnabled False) (paintedApp [1, 2])) 1 ''fill'' = Some ''#ff0000''
   \<and> getAttribute (updateGradientProperty exampleHost (SetEnabled False) (paintedApp [1, 2])) 1 ''data-orig-fill''
       = Some ''#ff0000''"
  using disabled_update_restores_fill[of 1 "paintedApp [1, 2]" 0 "SetEnabled False" exampleHost]
  by (simp add: paintedApp_def getAttribute_def orElse_def)

text \<open>
  The claim C3 as the spec has it fails on the painted document: after the gradient is
  disabled the first rectangle still carries its recorded fill, and the second rectangle,
  which has no record, keeps its own fill instead of the neutral colour.
\<close>

theorem disabled_update_keeps_record:
  "getAttribute (updateGradientProperty exampleHost (SetEnabled False) (paintedApp [1, 2])) 1 ''data-orig-fill''
     = Some ''#ff0000''
   \<and> getAttribute (updateGradientProperty exampleHost (SetEnabled False) (paintedApp [1, 2])) 2 ''data-orig-fill'' = None
   \<and> getAttribute (updateGradientProperty exampleHost (SetEnabled False) (paintedApp [1, 2])) 2 ''fill''
     = Some ''#00ff00''"
  using disabled_update_attributes[of 1 "paintedApp [1, 2]" 0 "SetEnabled False" exampleHost]
    disabled_update_attributes[of 2 "paintedApp [1, 2]" 0 "SetEnabled False" exampleHost]
  by (simp add: paintedApp_def getAttribute_def orElse_def restoredFill_def)

theorem disabled_update_creates_defs_witness:
  "children (heap (updateGradientProperty exampleHost (SetEnabled False) (exampleApp [1])) 0) = [4, 1, 2, 3]
   \<and> tagName (heap (updateGradientProperty exampleHost (SetEnabled False) (exampleApp [1])) 4) = ''defs''
   \<and> children (heap (updateGradientProperty exampleHost (SetEnabled False) (exampleApp [1])) 4) = []
   \<and> parentNode (heap (updateGradientProperty exampleHost (SetEnabled False) (exampleApp [1])) 4) = Some 0
   \<and> nextRef (updateGradientProperty exampleHost (SetEnabled False) (exampleApp [1])) = 5"
proof -
  have q: "querySelector (hasTag ''defs'') 0 (exampleApp [1]) = None"
    by (simp add: querySelector_def exampleApp_def hasTag_def)
  show ?thesis
    using disabled_update_creates_defs[of "exampleApp [1]" 0 "SetEnabled False" exampleHost] q
    by (simp add: exampleApp_def)
qed

text \<open>
  C6 on the code. The first selected element's fill is \<open>url(#gone)\<close>, no element of the
  document has the id \<open>gone\<close>, and the panel shows an enabled gradient: the effect leaves the
  state as it is, and the panel stays enabled.
\<close>

theorem unresolved_reference_keeps_panel:
  "gradientFromSelection danglingApp = danglingApp
   \<and> enabled (gradientProps (gradientFromSelection danglingApp))"
proof -
  have q: "querySelector (hasId ''gone'') 0 danglingApp = None"
    by (simp add: querySelector_def danglingApp_def hasId_def)
  have "gradientFromSelection danglingApp = danglingApp"
    using q by (simp add: gradientFromSelection_def getAttribute_def danglingApp_def)
  then show ?thesis by (simp add: danglingApp_def initialGradient_def)
qed

section \<open>Gradients: the fill reference\<close>

lemma elementId_ensureDefs:
  assumes "elementId s el = []"
  shows "elementId (snd (ensureDefs svg s)) el = []"
proof (cases "querySelector (hasTag ''defs'') svg s")
  case None
  then show ?thesis
    using assms by (simp add: elementId_def ensureDefs_def prependFresh_def case_prod_beta split: option.splits)
next
  case (Some d)
  then show ?thesis using assms by (simp add: ensureDefs_def)
qed

lemma elementId_recordOrigFill [simp]: "elementId (recordOrigFill el' s) el = elementId s el"
  by (simp add: elementId_def recordOrigFill_def)

lemma applyGradient_fill:
  "getAttribute (snd (applyGradient env g defs el (draws, s))) el ''fill''
     = Some (''url(#'' @ fst (gradientId env el draws (recordOrigFill el s)) @ '')'')"
  by (simp add: applyGradient_def Let_def case_prod_beta)

section \<open>Auto layout\<close>

lemma plus_number_Some [simp]: "plus_number (Some a) (Some b) = Some (a + b)"
  by (simp add: plus_number_def)

lemma layout_fold_row:
  assumes "distinct cs" and "map (getBBox env) cs = map Some boxes"
  shows "fst (fold (layoutChild env ''horizontal'' (Some g) (Some p)) cs (Some off, s))
           = Some (off + sum_list (map (\<lambda>b. width b + g) boxes))
       \<and> (\<forall>i<length cs.
             getAttribute (snd (fold (layoutChild env ''horizontal'' (Some g) (Some p)) cs (Some off, s))) (cs ! i) ''transform''
               = Some (translate env (Some (off + sum_list (map (\<lambda>b. width b + g) (take i boxes)))) (Some p)))
       \<and> (\<forall>q k. q \<notin> set cs \<longrightarrow>
             getAttribute (snd (fold (layoutChild env ''horizontal'' (Some g) (Some p)) cs (Some off, s))) q k
               = getAttribute s q k)"
  using assms
proof (induction cs arbitrary: boxes off s)
  case Nil
  then show ?case by simp
next
  case (Cons c cs)
  from Cons.prems(2) obtain b bs where boxes: "boxes = b # bs"
    and b: "getBBox env c = Some b" and bs: "map (getBBox env) cs = map Some bs"
    by (cases boxes) auto
  let ?s1 = "setAttribute c ''transform'' (translate env (Some off) (Some p)) s"
  let ?F = "\<lambda>st. fold (layoutChild env ''horizontal'' (Some g) (Some p)) cs st"
  have step: "fold (layoutChild env ''horizontal'' (Some g) (Some p)) (c # cs) (Some off, s)
                = ?F (Some (off + (width b + g)), ?s1)"
    by (simp add: layoutChild_def b)
  have d: "distinct cs" and notin: "c \<notin> set cs" using Cons.prems(1) by auto
  note IH = Cons.IH[OF d bs, of "off + (width b + g)" ?s1]
  have 1: "fst (?F (Some (off + (width b + g)), ?s1))
             = Some (off + sum_list (map (\<lambda>b. width b + g) boxes))"
    using IH by (simp add: boxes add.assoc)
  have 2: "getAttribute (snd (?F (Some (off + (width b + g)), ?s1))) ((c # cs) ! i) ''transform''
             = Some (translate env (Some (off + sum_list (map (\<lambda>b. width b + g) (take i boxes)))) (Some p))"
    if "i < length (c # cs)" for i
  proof (cases i)
    case 0
    then show ?thesis using IH notin by simp
  next
    case (Suc j)
    then have "j < length cs" using that by simp
    then show ?thesis using IH Suc by (simp add: boxes add.assoc)
  qed
  have 3: "getAttribute (snd (?F (Some (off + (width b + g)), ?s1))) q k = getAttribute s q k"
    if "q \<notin> set (c # cs)" for q k
    using IH that by simp
  show ?case unfolding step using 1 2 3 by blast
qed

lemma sum_list_take_nth:
  "i \<le> length xs \<Longrightarrow> sum_list (map f (take i xs)) = (\<Sum>k<i. f (xs ! k))"
proof (induction i)
  case 0
  then show ?case by simp
next
  case (Suc i)
  then have "take (Suc i) xs = take i xs @ [xs ! i]" by (simp add: take_Suc_conv_app_nth)
  then show ?case using Suc by simp
qed

text \<open>
  C4, as the code has it. In a \<open>flex\<close> container laid out in a row, with gap \<open>g\<close> and padding
  \<open>p\<close>, whose children other than titles and descriptions all measure, with widths
  \<open>w\<^sub>0, w\<^sub>1, ...\<close>, \<open>runAutoLayout\<close> gives child \<open>i\<close> the translation with x-offset
  \<open>p + (w\<^sub>0 + g) + ... + (w\<^bsub>i-1\<^esub> + g)\<close> and y-offset \<open>p\<close>. The x-offsets grow strictly
  from child to child when every width plus the gap is positive.
\<close>

theorem row_layout_offsets:
  assumes "getAttribute s grp ''data-layout'' = Some ''flex''"
    and "orElse (getAttribute s grp ''data-direction'') ''horizontal'' = ''horizontal''"
    and "parseInt (orElse (getAttribute s grp ''data-gap'') ''0'') = Some g"
    and "parseInt (orElse (getAttribute s grp ''data-padding'') ''0'') = Some p"
    and "distinct (layoutChildren s grp)"
    and "map (getBBox env) (layoutChildren s grp) = map Some boxes"
    and "i < length boxes"
  shows "getAttribute (runAutoLayout env grp s) (layoutChildren s grp ! i) ''transform''
           = Some (translate env (Some (p + (\<Sum>k<i. width (boxes ! k) + g))) (Some p))
       \<and> ((\<forall>k<length boxes. 0 < width (boxes ! k) + g) \<longrightarrow>
            (\<forall>j<i. p + (\<Sum>k<j. width (boxes ! k) + g) < p + (\<Sum>k<i. width (boxes ! k) + g)))"
proof
  have len: "length (layoutChildren s grp) = length boxes"
    using assms(6) by (metis length_map)
  have run: "runAutoLayout env grp s
      = snd (fold (layoutChild env ''horizontal'' (Some g) (Some p)) (layoutChildren s grp) (Some p, s))"
    using assms(1-4) by (simp add: runAutoLayout_def Let_def)
  have "getAttribute (runAutoLayout env grp s) (layoutChildren s grp ! i) ''transform''
      = Some (translate env (Some (p + sum_list (map (\<lambda>b. width b + g) (take i boxes)))) (Some p))"
    unfolding run using layout_fold_row[OF assms(5,6), of g p p s] assms(7) len by simp
  then show "getAttribute (runAutoLayout env grp s) (layoutChildren s grp ! i) ''transform''
           = Some (translate env (Some (p + (\<Sum>k<i. width (boxes ! k) + g))) (Some p))"
    using sum_list_take_nth[of i boxes "\<lambda>b. width b + g"] assms(7) by simp
next
  show "(\<forall>k<length boxes. 0 < width (boxes ! k) + g) \<longrightarrow>
            (\<forall>j<i. p + (\<Sum>k<j. width (boxes ! k) + g) < p + (\<Sum>k<i. width (boxes ! k) + g))"
  proof (intro impI allI)
    fix j assume pos: "\<forall>k<length boxes. 0 < width (boxes ! k) + g" and ji: "j < i"
    have "(\<Sum>k<i. width (boxes ! k) + g) = (\<Sum>k<j. width (boxes ! k) + g) + (\<Sum>k = j..<i. width (boxes ! k) + g)"
      using sum.atLeastLessThan_concat[of 0 j i "\<lambda>k. width (boxes ! k) + g"] ji
      by (simp add: atLeast0LessThan)
    moreover have "0 < (\<Sum>k = j..<i. width (boxes ! k) + g)"
      using pos ji assms(7) by (intro sum_pos) auto
    ultimately show "p + (\<Sum>k<j. width (boxes ! k) + g) < p + (\<Sum>k<i. width (boxes ! k) + g)" by simp
  qed
qed

lemma rowApp_heap [simp]:
  "heap (rowApp gapText) 0 = \<lparr>tagName = ''svg'', attributes = [], children = [1], parentNode = None\<rparr>"
  "heap (rowApp gapText) (Suc 0) = \<lparr>tagName = ''g'',
               attributes = [(''data-layout'', ''flex''), (''data-direction'', ''horizontal''),
                             (''data-gap'', gapText), (''data-padding'', ''16'')],
               children = [2, 3, 4], parentNode = Some 0\<rparr>"
  "heap (rowApp gapText) 2 = \<lparr>tagName = ''title'', attributes = [], children = [], parentNode = Some 1\<rparr>"
  "heap (rowApp gapText) 3 = \<lparr>tagName = ''rect'', attributes = [], children = [], parentNode = Some 1\<rparr>"
  "heap (rowApp gapText) 4 = \<lparr>tagName = ''rect'', attributes = [], children = [], parentNode = Some 1\<rparr>"
  by (simp_all add: rowApp_def)

lemma parseInt_examples [simp]: "parseInt ''0'' = Some 0" "parseInt ''16'' = Some 16"
  by (simp_all add: parseInt_def parseUnsigned_def parseDigits_def isDigitIn_def digitVal_def
      isWhiteSpace_def Let_def)

lemma decimalString_examples [simp]:
  "decimalString (Some 16) = ''16''" "decimalString (Some 42) = ''42''"
  by (simp_all add: decimalString_def showNat.simps)

lemma layoutChildren_rowApp [simp]: "layoutChildren (rowApp gapText) (Suc 0) = [3, 4]"
  by (simp add: layoutChildren_def)

theorem row_layout_offsets_witness:
  "getAttribute (runAutoLayout exampleHost 1 (rowApp ''16'')) 4 ''transform'' = Some ''translate(42, 16)''
   \<and> (16::real) + (\<Sum>k<0. width ([\<lparr>box_x = 0, box_y = 0, width = 10, height = 5\<rparr>,
                                    \<lparr>box_x = 0, box_y = 0, width = 10, height = 5\<rparr>] ! k) + 16)
       < 16 + (\<Sum>k<1. width ([\<lparr>box_x = 0, box_y = 0, width = 10, height = 5\<rparr>,
                                \<lparr>box_x = 0, box_y = 0, width = 10, height = 5\<rparr>] ! k) + 16)"
proof -
  let ?b = "\<lparr>box_x = 0, box_y = 0, width = 10, height = 5\<rparr> :: BoundingBox"
  have pos: "\<forall>k<length [?b, ?b]. 0 < width ([?b, ?b] ! k) + (16::real)"
    by (simp add: less_Suc_eq nth_Cons')
  show ?thesis
    using row_layout_offsets[of "rowApp ''16''" 1 16 16 exampleHost "[?b, ?b]" 1] pos
    by (simp add: getAttribute_def orElse_def exampleHost_def translate_def)
qed

text \<open>
  The claim C4 as the spec has it fails for a row of hairlines with gap 0: both children get
  the translation \<open>(16, 16)\<close>, so the translations do not grow.
\<close>

theorem row_layout_not_increasing:
  "getAttribute (runAutoLayout hairlineHost 1 (rowApp ''0'')) 3 ''transform'' = Some ''translate(16, 16)''
   \<and> getAttribute (runAutoLayout hairlineHost 1 (rowApp ''0'')) 4 ''transform'' = Some ''translate(16, 16)''"
proof -
  let ?b = "\<lparr>box_x = 0, box_y = 0, width = 0, height = 5\<rparr> :: BoundingBox"
  have run: "runAutoLayout hairlineHost 1 (rowApp ''0'')
      = snd (fold (layoutChild hairlineHost ''horizontal'' (Some 0) (Some 16)) [3, 4] (Some 16, rowApp ''0''))"
    by (simp add: runAutoLayout_def Let_def getAttribute_def orElse_def)
  show ?thesis
    unfolding run using layout_fold_row[of "[3, 4]" hairlineHost "[?b, ?b]" 0 16 16 "rowApp ''0''"]
    by (simp add: hairlineHost_def exampleHost_def translate_def less_Suc_eq nth_Cons')
qed

section \<open>Grouping and ungrouping\<close>

subsection \<open>Reading the tree after a move\<close>

lemma removeNode_children:
  "children (heap (removeNode x s) q) =
     (case parentNode (heap s x) of
        None \<Rightarrow> children (heap s q)
      | Some p0 \<Rightarrow> if q = p0 then removeAll x (children (heap s q)) else children (heap s q))"
  by (simp add: removeNode_def split: option.split)


lemma place_children:
  "children (heap (place p x f s) q) =
     (if q = p then f (children (heap (removeNode x s) p)) else children (heap (removeNode x s) q))"
  by (simp add: place_def)





lemma removeAll_filter_step:
  "removeAll e (filter (\<lambda>c. c \<notin> set done) xs) = filter (\<lambda>c. c \<notin> set (done @ [e])) xs"
  by (induction xs) auto

subsection \<open>The loop of \<open>createAutoLayoutGroup\<close>\<close>


subsection \<open>The loop of \<open>ungroup\<close>\<close>


subsection \<open>Layout keeps the tree\<close>

lemma layoutChild_structure:
  "nextRef (snd (layoutChild env d g p c st)) = nextRef (snd st)
   \<and> rootSvg (snd (layoutChild env d g p c st)) = rootSvg (snd st)
   \<and> selectedElements (snd (layoutChild env d g p c st)) = selectedElements (snd st)
   \<and> gradientProps (snd (layoutChild env d g p c st)) = gradientProps (snd st)
   \<and> children (heap (snd (layoutChild env d g p c st)) q) = children (heap (snd st) q)
   \<and> parentNode (heap (snd (layoutChild env d g p c st)) q) = parentNode (heap (snd st) q)
   \<and> tagName (heap (snd (layoutChild env d g p c st)) q) = tagName (heap (snd st) q)"
  by (cases st) (simp add: layoutChild_def split: option.split)

lemma layout_fold_structure:
  "nextRef (snd (fold (layoutChild env d g p) cs st)) = nextRef (snd st)
   \<and> rootSvg (snd (fold (layoutChild env d g p) cs st)) = rootSvg (snd st)
   \<and> selectedElements (snd (fold (layoutChild env d g p) cs st)) = selectedElements (snd st)
   \<and> gradientProps (snd (fold (layoutChild env d g p) cs st)) = gradientProps (snd st)
   \<and> children (heap (snd (fold (layoutChild env d g p) cs st)) q) = children (heap (snd st) q)
   \<and> parentNode (heap (snd (fold (layoutChild env d g p) cs st)) q) = parentNode (heap (snd st) q)
   \<and> tagName (heap (snd (fold (layoutChild env d g p) cs st)) q) = tagName (heap (snd st) q)"
proof (induction cs arbitrary: st)
  case Nil
  then show ?case by simp
next
  case (Cons c cs)
  show ?case using Cons.IH[of "layoutChild env d g p c st"] layoutChild_structure[of env d g p c st q]
    by simp
qed

lemma runAutoLayout_structure [simp]:
  "nextRef (runAutoLayout env grp s) = nextRef s"
  "rootSvg (runAutoLayout env grp s) = rootSvg s"
  "selectedElements (runAutoLayout env grp s) = selectedElements s"
  "gradientProps (runAutoLayout env grp s) = gradientProps s"
  "children (heap (runAutoLayout env grp s) q) = children (heap s q)"
  "parentNode (heap (runAutoLayout env grp s) q) = parentNode (heap s q)"
  "tagName (heap (runAutoLayout env grp s) q) = tagName (heap s q)"
  using layout_fold_structure[of env _ _ _ _ "(_, s)" q]
  by (simp_all add: runAutoLayout_def Let_def)











section \<open>Gradients: the enabled branch\<close>

subsection \<open>Well-formedness is kept\<close>

lemma kids_okI:
  assumes "kids_ok s" and "nextRef s \<le> nextRef t"
    and "\<And>r c. r < nextRef t \<Longrightarrow> c \<in> set (children (heap t r)) \<Longrightarrow>
           c < nextRef t \<or> (r < nextRef s \<and> c \<in> set (children (heap s r)))"
  shows "kids_ok t"
  unfolding kids_ok_def
proof (intro allI impI ballI)
  fix r c assume "r < nextRef t" "c \<in> set (children (heap t r))"
  then have "c < nextRef t \<or> (r < nextRef s \<and> c \<in> set (children (heap s r)))" by (rule assms(3))
  then show "c < nextRef t" using assms(1,2) unfolding kids_ok_def by force
qed

lemma kids_ok_setAttribute [simp]: "kids_ok (setAttribute r k v s) = kids_ok s"
  by (simp add: kids_ok_def)

lemma kids_ok_createElementNS: "kids_ok s \<Longrightarrow> kids_ok (snd (createElementNS tag s))"
  by (rule kids_okI[of s]) (auto split: if_splits)

lemma kids_ok_place:
  assumes "kids_ok s" and "x < nextRef s" and "\<And>cs. set (f cs) \<subseteq> insert x (set cs)"
  shows "kids_ok (place p x f s)"
proof (rule kids_okI[OF assms(1)])
  show "nextRef s \<le> nextRef (place p x f s)" by simp
  fix r c assume r: "r < nextRef (place p x f s)" and c: "c \<in> set (children (heap (place p x f s) r))"
  have rem: "set (children (heap (removeNode x s) q)) \<subseteq> set (children (heap s q))" for q
    by (auto simp: removeNode_children split: option.splits)
  have "c = x \<or> c \<in> set (children (heap s r))"
    using c assms(3)[of "children (heap (removeNode x s) p)"] rem[of p] rem[of r]
    by (auto simp: place_children split: if_splits)
  then show "c < nextRef (place p x f s) \<or> (r < nextRef s \<and> c \<in> set (children (heap s r)))"
    using r assms(2) by auto
qed

lemma replaceWith_children:
  "children (heap (replaceWith old x s) q) =
     (case parentNode (heap s old) of
        None \<Rightarrow> children (heap s q)
      | Some p \<Rightarrow> if q = p then map (\<lambda>c. if c = old then x else c) (children (heap s q))
                  else children (heap s q))"
  by (simp add: replaceWith_def split: option.split)

lemma kids_ok_replaceWith:
  assumes "kids_ok s" and "x < nextRef s"
  shows "kids_ok (replaceWith old x s)"
proof (rule kids_okI[OF assms(1)])
  show "nextRef s \<le> nextRef (replaceWith old x s)" by simp
  fix r c assume r: "r < nextRef (replaceWith old x s)"
    and c: "c \<in> set (children (heap (replaceWith old x s) r))"
  have "c = x \<or> c \<in> set (children (heap s r))"
    using c by (auto simp: replaceWith_children split: option.splits if_splits)
  then show "c < nextRef (replaceWith old x s) \<or> (r < nextRef s \<and> c \<in> set (children (heap s r)))"
    using r assms(2) by auto
qed

lemma clearChildren_children:
  "children (heap (clearChildren r s) q) = (if q = r then [] else children (heap s q))"
  by (simp add: clearChildren_def)

lemma kids_ok_clearChildren: "kids_ok s \<Longrightarrow> kids_ok (clearChildren r s)"
  by (rule kids_okI[of s]) (auto simp: clearChildren_children split: if_splits)

lemma descendants_allocated:
  assumes "kids_ok s" and "r < nextRef s"
  shows "\<forall>d\<in>set (descendants k (heap s) r). d < nextRef s"
  using assms(2)
proof (induction k arbitrary: r)
  case 0
  then show ?case by simp
next
  case (Suc k)
  have c: "\<forall>c\<in>set (children (heap s r)). c < nextRef s"
    using assms(1) Suc.prems by (simp add: kids_ok_def)
  show ?case using c Suc.IH by auto
qed

lemma querySelector_allocated:
  assumes "kids_ok s" and "r < nextRef s" and "querySelector p r s = Some d"
  shows "d < nextRef s"
proof -
  have "d \<in> set (descendants (nextRef s) (heap s) r)"
    using assms(3) by (auto simp: querySelector_def find_Some_iff)
  then show ?thesis using descendants_allocated[OF assms(1,2)] by blast
qed

subsection \<open>The steps of the enabled branch\<close>

lemma recordOrigFill_facts [simp]:
  "nextRef (recordOrigFill el s) = nextRef s"
  "kids_ok (recordOrigFill el s) = kids_ok s"
  "k \<noteq> ''data-orig-fill'' \<Longrightarrow> getAttribute (recordOrigFill el s) q k = getAttribute s q k"
  by (simp_all add: recordOrigFill_def)

lemma resolveGradEl_facts:
  assumes "kids_ok s" and "defs < nextRef s"
  shows "fst (resolveGradEl t defs i s) < nextRef (snd (resolveGradEl t defs i s))"
    and "kids_ok (snd (resolveGradEl t defs i s))"
proof -
  let ?n = "nextRef s"
  let ?s1 = "setAttribute ?n ''id'' i (snd (createElementNS (gradientTag t) s))"
  have k1: "kids_ok ?s1" using kids_ok_createElementNS[OF assms(1)] by simp
  have n1: "?n < nextRef ?s1" by simp
  show "fst (resolveGradEl t defs i s) < nextRef (snd (resolveGradEl t defs i s))"
    using querySelector_allocated[OF assms]
    by (auto simp: resolveGradEl_def appendFresh_def createElementNS_def split: option.splits)
  show "kids_ok (snd (resolveGradEl t defs i s))"
  proof (cases "querySelector (hasId i) defs s")
    case None
    have "kids_ok (place defs ?n (\<lambda>cs. cs @ [?n]) ?s1)"
      by (rule kids_ok_place[OF k1 n1]) auto
    then show ?thesis using None by (simp add: resolveGradEl_def appendFresh_def createElementNS_def)
  next
    case (Some ge)
    have "kids_ok (replaceWith ge ?n ?s1)" by (rule kids_ok_replaceWith[OF k1 n1])
    then show ?thesis using Some assms(1) by (simp add: resolveGradEl_def createElementNS_def)
  qed
qed

lemma resolveGradEl_frame:
  "nextRef s \<le> nextRef (snd (resolveGradEl t defs i s))"
  "q < nextRef s \<Longrightarrow> getAttribute (snd (resolveGradEl t defs i s)) q k = getAttribute s q k"
  by (auto simp: resolveGradEl_def appendFresh_def createElementNS_def getAttribute_def setAttribute_def
      split: option.splits)

lemma setGeometry_facts [simp]:
  "nextRef (setGeometry env g ge s) = nextRef s"
  "kids_ok (setGeometry env g ge s) = kids_ok s"
  by (simp_all add: setGeometry_def Let_def)

lemma setGeometry_linear:
  assumes "gtype g = Linear"
  shows "linearEndpoints env g (setGeometry env g ge s) ge"
    and "q \<noteq> ge \<Longrightarrow> getAttribute (setGeometry env g ge s) q k = getAttribute s q k"
  using assms by (simp_all add: setGeometry_def linearEndpoints_def Let_def)

lemma setGeometry_keeps:
  assumes "gtype g = Linear" and "linearEndpoints env g s q"
  shows "linearEndpoints env g (setGeometry env g ge s) q"
  using assms by (simp add: setGeometry_def linearEndpoints_def Let_def)

lemma linearEndpoints_cong:
  "(\<And>k. k \<in> {''x1'', ''y1'', ''x2'', ''y2''} \<Longrightarrow> getAttribute t q k = getAttribute s q k)
     \<Longrightarrow> linearEndpoints env g t q = linearEndpoints env g s q"
  by (simp add: linearEndpoints_def)

lemma appendStop_facts:
  "nextRef (appendStop env ge stop s) = Suc (nextRef s)"
  "kids_ok s \<Longrightarrow> kids_ok (appendStop env ge stop s)"
  "q < nextRef s \<Longrightarrow> getAttribute (appendStop env ge stop s) q k = getAttribute s q k"
proof -
  let ?n = "nextRef s"
  let ?s1 = "setAttribute ?n ''stop-color'' (color stop)
              (setAttribute ?n ''offset'' (percent env (offset stop)) (snd (createElementNS ''stop'' s)))"
  have a: "appendStop env ge stop s = place ge ?n (\<lambda>cs. cs @ [?n]) ?s1"
    by (simp add: appendStop_def appendFresh_def createElementNS_def)
  show "nextRef (appendStop env ge stop s) = Suc (nextRef s)" by (simp add: a)
  show "kids_ok (appendStop env ge stop s)" if "kids_ok s"
    unfolding a using kids_ok_createElementNS[OF that, of "''stop''"]
    by (intro kids_ok_place) auto
  show "getAttribute (appendStop env ge stop s) q k = getAttribute s q k" if "q < nextRef s"
    using that by (simp add: a)
qed

lemma fold_appendStop_facts:
  "nextRef s \<le> nextRef (fold (appendStop env ge) ss s)"
  "kids_ok s \<Longrightarrow> kids_ok (fold (appendStop env ge) ss s)"
  "q < nextRef s \<Longrightarrow> getAttribute (fold (appendStop env ge) ss s) q k = getAttribute s q k"
proof (induction ss arbitrary: s)
  case Nil
  { case 1 show ?case by simp }
  { case 2 then show ?case by simp }
  { case 3 then show ?case by simp }
next
  case (Cons a ss)
  { case 1 show ?case using Cons.IH(1)[of "appendStop env ge a s"] by (simp add: appendStop_facts) }
  { case 2 then show ?case using Cons.IH(2)[of "appendStop env ge a s"] by (simp add: appendStop_facts) }
  { case 3 then show ?case using Cons.IH(3)[of "appendStop env ge a s"] by (simp add: appendStop_facts) }
qed

lemma applyGradient_state:
  "snd (applyGradient env g defs el st) =
     setAttribute el ''fill''
       (''url(#'' @ fst (gradientId env el (fst st) (recordOrigFill el (snd st))) @ '')'')
       (fold (appendStop env (gradElOf env g defs el st)) (stops g)
         (clearChildren (gradElOf env g defs el st)
           (setGeometry env g (gradElOf env g defs el st)
             (snd (resolveGradEl (gtype g) defs
                    (fst (gradientId env el (fst st) (recordOrigFill el (snd st))))
                    (recordOrigFill el (snd st)))))))"
  by (cases st) (simp add: applyGradient_def gradElOf_def Let_def case_prod_beta)

lemma applyGradient_grows: "nextRef (snd st) \<le> nextRef (snd (applyGradient env g defs el st))"
proof -
  let ?s1 = "recordOrigFill el (snd st)"
  let ?R = "resolveGradEl (gtype g) defs (fst (gradientId env el (fst st) ?s1)) ?s1"
  let ?ge = "gradElOf env g defs el st"
  have "nextRef (snd st) \<le> nextRef (snd ?R)" using resolveGradEl_frame(1)[of ?s1] by simp
  also have "\<dots> \<le> nextRef (fold (appendStop env ?ge) (stops g) (clearChildren ?ge (setGeometry env g ?ge (snd ?R))))"
    using fold_appendStop_facts(1)[of "clearChildren ?ge (setGeometry env g ?ge (snd ?R))"] by simp
  finally show ?thesis by (simp add: applyGradient_state)
qed

lemma applyGradient_sets:
  assumes "kids_ok (snd st)" and "defs < nextRef (snd st)" and "gtype g = Linear"
  shows "linearEndpoints env g (snd (applyGradient env g defs el st)) (gradElOf env g defs el st)"
    and "gradElOf env g defs el st < nextRef (snd (applyGradient env g defs el st))"
    and "kids_ok (snd (applyGradient env g defs el st))"
proof -
  let ?s1 = "recordOrigFill el (snd st)"
  let ?i = "fst (gradientId env el (fst st) ?s1)"
  let ?R = "resolveGradEl (gtype g) defs ?i ?s1"
  let ?ge = "gradElOf env g defs el st"
  let ?s3 = "setGeometry env g ?ge (snd ?R)"
  let ?s4 = "clearChildren ?ge ?s3"
  let ?s5 = "fold (appendStop env ?ge) (stops g) ?s4"
  have ge: "?ge = fst ?R" by (cases st) (simp add: gradElOf_def Let_def)
  have k1: "kids_ok ?s1" "defs < nextRef ?s1" using assms(1,2) by simp_all
  have lt: "?ge < nextRef (snd ?R)" unfolding ge by (rule resolveGradEl_facts(1)[OF k1])
  have kR: "kids_ok (snd ?R)" by (rule resolveGradEl_facts(2)[OF k1])
  have e3: "linearEndpoints env g ?s3 ?ge" by (rule setGeometry_linear(1)[OF assms(3)])
  have lt4: "?ge < nextRef ?s4" using lt by simp
  have e5: "linearEndpoints env g ?s5 ?ge"
    using e3 fold_appendStop_facts(3)[OF lt4, of env ?ge "stops g"]
    by (simp add: linearEndpoints_def)
  have k5: "kids_ok ?s5"
    using kR by (intro fold_appendStop_facts(2) kids_ok_clearChildren) simp
  show "linearEndpoints env g (snd (applyGradient env g defs el st)) ?ge"
    using e5 by (simp add: applyGradient_state linearEndpoints_def)
  show "?ge < nextRef (snd (applyGradient env g defs el st))"
    using lt4 fold_appendStop_facts(1)[of ?s4 env ?ge "stops g"] by (simp add: applyGradient_state)
  show "kids_ok (snd (applyGradient env g defs el st))"
    using k5 by (simp add: applyGradient_state)
qed

lemma applyGradient_keeps:
  assumes "q < nextRef (snd st)" and "linearEndpoints env g (snd st) q" and "gtype g = Linear"
  shows "linearEndpoints env g (snd (applyGradient env g defs el st)) q"
proof -
  let ?s1 = "recordOrigFill el (snd st)"
  let ?i = "fst (gradientId env el (fst st) ?s1)"
  let ?R = "resolveGradEl (gtype g) defs ?i ?s1"
  let ?ge = "gradElOf env g defs el st"
  let ?s3 = "setGeometry env g ?ge (snd ?R)"
  let ?s4 = "clearChildren ?ge ?s3"
  let ?s5 = "fold (appendStop env ?ge) (stops g) ?s4"
  have q1: "q < nextRef ?s1" using assms(1) by simp
  have e1: "linearEndpoints env g ?s1 q" using assms(2) by (simp add: linearEndpoints_def)
  have eR: "linearEndpoints env g (snd ?R) q"
    using e1 resolveGradEl_frame(2)[OF q1, of "gtype g" defs ?i] by (simp add: linearEndpoints_def)
  have e3: "linearEndpoints env g ?s3 q" by (rule setGeometry_keeps[OF assms(3) eR])
  have q4: "q < nextRef ?s4" using q1 resolveGradEl_frame(1)[of ?s1 "gtype g" defs ?i] by simp
  have e5: "linearEndpoints env g ?s5 q"
    using e3 fold_appendStop_facts(3)[OF q4, of env ?ge "stops g"] by (simp add: linearEndpoints_def)
  show ?thesis using e5 by (simp add: applyGradient_state linearEndpoints_def)
qed

lemma fold_applyGradient_keeps:
  assumes "gtype g = Linear"
  shows "q < nextRef (snd st) \<Longrightarrow> linearEndpoints env g (snd st) q
     \<Longrightarrow> linearEndpoints env g (snd (fold (applyGradient env g defs) sel st)) q"
proof (induction sel arbitrary: st)
  case Nil
  then show ?case by simp
next
  case (Cons el sel)
  have "q < nextRef (snd (applyGradient env g defs el st))"
    using Cons.prems(1) applyGradient_grows[of st env g defs el] by simp
  moreover have "linearEndpoints env g (snd (applyGradient env g defs el st)) q"
    by (rule applyGradient_keeps[OF Cons.prems assms])
  ultimately show ?case using Cons.IH by simp
qed

lemma paintServers_endpoints:
  assumes "gtype g = Linear"
  shows "kids_ok (snd st) \<Longrightarrow> defs < nextRef (snd st)
     \<Longrightarrow> \<forall>ge\<in>set (paintServers env g defs sel st).
           linearEndpoints env g (snd (fold (applyGradient env g defs) sel st)) ge"
proof (induction sel arbitrary: st)
  case Nil
  then show ?case by simp
next
  case (Cons el sel)
  let ?st = "applyGradient env g defs el st"
  note A = applyGradient_sets[OF Cons.prems assms, of env el]
  have d: "defs < nextRef (snd ?st)" using Cons.prems(2) applyGradient_grows[of st env g defs el] by simp
  have hd: "linearEndpoints env g (snd (fold (applyGradient env g defs) sel ?st)) (gradElOf env g defs el st)"
    by (rule fold_applyGradient_keeps[OF assms A(2) A(1)])
  have tl: "\<forall>ge\<in>set (paintServers env g defs sel ?st).
           linearEndpoints env g (snd (fold (applyGradient env g defs) sel ?st)) ge"
    by (rule Cons.IH[OF A(3) d])
  show ?case using hd tl by simp
qed

lemma ensureDefs_ok:
  assumes "kids_ok s" and "svg < nextRef s"
  shows "kids_ok (snd (ensureDefs svg s))" and "fst (ensureDefs svg s) < nextRef (snd (ensureDefs svg s))"
proof -
  let ?n = "nextRef s"
  let ?s1 = "snd (createElementNS ''defs'' s)"
  have k: "kids_ok (place svg ?n (\<lambda>cs. ?n # cs) ?s1)"
    using kids_ok_createElementNS[OF assms(1), of "''defs''"] by (intro kids_ok_place) auto
  show "kids_ok (snd (ensureDefs svg s))"
    using k assms(1) by (simp add: ensureDefs_def prependFresh_def createElementNS_def split: option.split)
  show "fst (ensureDefs svg s) < nextRef (snd (ensureDefs svg s))"
    using querySelector_allocated[OF assms]
    by (auto simp: ensureDefs_def prependFresh_def createElementNS_def split: option.split)
qed

lemma enabled_linear_endpoints:
  assumes "rootSvg s = Some svg" and "svg < nextRef s" and "kids_ok s"
    and "enabled (applyUpdate upd (gradientProps s))"
    and "gtype (applyUpdate upd (gradientProps s)) = Linear"
    and "ge \<in> set (gradientElements env upd s)"
  shows "linearEndpoints env (applyUpdate upd (gradientProps s)) (updateGradientProperty env upd s) ge"
proof -
  let ?g = "applyUpdate upd (gradientProps s)"
  let ?s0 = "s\<lparr>gradientProps := ?g\<rparr>"
  let ?defs = "fst (ensureDefs svg ?s0)"
  let ?s1 = "snd (ensureDefs svg ?s0)"
  have k0: "kids_ok ?s0" "svg < nextRef ?s0" using assms(2,3) by (simp_all add: kids_ok_def)
  note E = ensureDefs_ok[OF k0]
  have fe: "gradientForEach env ?g ?defs = applyGradient env ?g ?defs"
    using assms(4) by (intro ext) (simp add: gradientForEach_def)
  have els: "gradientElements env upd s = paintServers env ?g ?defs (selectedElements s) (0, ?s1)"
    using assms(1,4) by (simp add: gradientElements_def Let_def case_prod_beta)
  then have "selectedElements s \<noteq> []" using assms(6) by auto
  then have u: "updateGradientProperty env upd s
      = snd (fold (applyGradient env ?g ?defs) (selectedElements s) (0, ?s1))"
    using assms(1) by (simp add: updateGradientProperty_def Let_def case_prod_beta fe)
  show ?thesis
    unfolding u using paintServers_endpoints[OF assms(5), of "(0, ?s1)" ?defs env "selectedElements s"] E assms(6)
    by (simp add: els)
qed

lemma length_paintServers [simp]: "length (paintServers env g defs sel st) = length sel"
  by (induction sel arbitrary: st) simp_all

lemma kids_ok_paintedApp: "kids_ok (paintedApp sel)"
proof -
  have "c < 6" if "r < 6" and "c \<in> set (children (paintedHeap r))" for r c :: nat
  proof -
    have "r = 0 \<or> r = 1 \<or> r = 2 \<or> r = 3 \<or> r = 4 \<or> r = 5" using that(1) by arith
    then show ?thesis using that(2) by auto
  qed
  then show ?thesis by (auto simp: kids_ok_def paintedApp_def)
qed

lemma gradientElements_paintedApp:
  "gradientElements exampleHost (SetAngle a) (paintedApp [1]) = [5]"
proof -
  have d: "querySelector (hasTag ''defs'') 0 (paintedApp [1]) = Some 4"
    by (simp add: querySelector_def paintedApp_def hasTag_def)
  have e: "ensureDefs 0 (paintedApp [1]\<lparr>gradientProps := g\<rparr>) = (4, paintedApp [1]\<lparr>gradientProps := g\<rparr>)" for g
    using d by (simp add: ensureDefs_def)
  let ?s1 = "recordOrigFill 1 (paintedApp [1]\<lparr>gradientProps := applyUpdate (SetAngle a) (gradientProps (paintedApp [1]))\<rparr>)"
  have r: "?s1 = paintedApp [1]\<lparr>gradientProps := applyUpdate (SetAngle a) (gradientProps (paintedApp [1]))\<rparr>"
    by (simp add: recordOrigFill_def truthy_def getAttribute_def paintedApp_def)
  have i: "gradientId exampleHost 1 0 ?s1 = (''grad-a'', 0)"
    unfolding r by (simp add: gradientId_def elementId_def getAttribute_def paintedApp_def)
  have q: "querySelector (hasId ''grad-a'') 4 ?s1 = Some 5"
    unfolding r by (simp add: querySelector_def paintedApp_def hasId_def)
  have t: "toLowerCase (tagName (heap ?s1 5)) = toLowerCase (gradientTag Linear)"
    unfolding r by (simp add: paintedApp_def gradientTag_def)
  have "fst (resolveGradEl Linear 4 ''grad-a'' ?s1) = 5"
    using q t by (simp add: resolveGradEl_def)
  then show ?thesis
    using e i
    by (simp add: gradientElements_def Let_def gradElOf_def paintedApp_def initialGradient_def)
qed

lemma round_60: "round (50 - sin (60 * pi / 180) * 50 :: real) = 7"
proof -
  have s: "sin (60 * pi / 180 :: real) = sqrt 3 / 2" using sin_60 by simp
  have lo: "(17/10 :: real) < sqrt 3" by (rule real_less_rsqrt) (simp add: power2_eq_square)
  have hi: "sqrt 3 < (174/100 :: real)" by (rule real_less_lsqrt) (simp_all add: power2_eq_square)
  show ?thesis unfolding s by (rule round_unique) (use lo hi in simp_all)
qed

text \<open>
  C2, as the code has it. Let the document be well formed and have a root, and the updated
  descriptor be an enabled linear gradient of angle \<open>\<theta>\<close>. Then the call resolves one paint
  server for each selected element, and every one of them ends with the endpoint attributes
  \<open>x1\<close>, \<open>y1\<close>, \<open>x2\<close>, \<open>y2\<close> set to the percentages \<open>50 - 50 cos \<theta>\<close>, \<open>50 - 50 sin \<theta>\<close>,
  \<open>50 + 50 cos \<theta>\<close> and \<open>50 + 50 cos \<theta>\<close>, each rounded to the nearest integer; the last
  one uses the cosine. At the angle 90 these are 50, 0, 50 and 50.
\<close>

theorem linear_gradient_endpoints:
  assumes "rootSvg s = Some svg" and "svg < nextRef s" and "kids_ok s"
    and "enabled (applyUpdate upd (gradientProps s))"
    and "gtype (applyUpdate upd (gradientProps s)) = Linear"
    and "gradEl \<in> set (gradientElements env upd s)"
  shows "length (gradientElements env upd s) = length (selectedElements s)
    \<and> getAttribute (updateGradientProperty env upd s) gradEl ''x1''
        = Some (numberToString env (Some (real_of_int
            (round (50 - cos (angle (applyUpdate upd (gradientProps s)) * pi / 180) * 50)))) @ ''%'')
    \<and> getAttribute (updateGradientProperty env upd s) gradEl ''y1''
        = Some (numberToString env (Some (real_of_int
            (round (50 - sin (angle (applyUpdate upd (gradientProps s)) * pi / 180) * 50)))) @ ''%'')
    \<and> getAttribute (updateGradientProperty env upd s) gradEl ''x2''
        = Some (numberToString env (Some (real_of_int
            (round (50 + cos (angle (applyUpdate upd (gradientProps s)) * pi / 180) * 50)))) @ ''%'')
    \<and> getAttribute (updateGradientProperty env upd s) gradEl ''y2''
        = Some (numberToString env (Some (real_of_int
            (round (50 + cos (angle (applyUpdate upd (gradientProps s)) * pi / 180) * 50)))) @ ''%'')
    \<and> (angle (applyUpdate upd (gradientProps s)) = 90 \<longrightarrow>
          getAttribute (updateGradientProperty env upd s) gradEl ''x1'' = Some (numberToString env (Some 50) @ ''%'')
        \<and> getAttribute (updateGradientProperty env upd s) gradEl ''y1'' = Some (numberToString env (Some 0) @ ''%'')
        \<and> getAttribute (updateGradientProperty env upd s) gradEl ''x2'' = Some (numberToString env (Some 50) @ ''%'')
        \<and> getAttribute (updateGradientProperty env upd s) gradEl ''y2'' = Some (numberToString env (Some 50) @ ''%''))"
proof -
  have len: "length (gradientElements env upd s) = length (selectedElements s)"
    using assms(1,4) by (simp add: gradientElements_def Let_def case_prod_beta)
  note e = enabled_linear_endpoints[OF assms, unfolded linearEndpoints_def percent_def rounded_def]
  show ?thesis using len e by auto
qed

theorem linear_gradient_endpoints_witness:
  "getAttribute (updateGradientProperty exampleHost (SetAngle 90) (paintedApp [1])) 5 ''x1'' = Some ''50%''
   \<and> getAttribute (updateGradientProperty exampleHost (SetAngle 90) (paintedApp [1])) 5 ''y1'' = Some ''0%''
   \<and> getAttribute (updateGradientProperty exampleHost (SetAngle 90) (paintedApp [1])) 5 ''x2'' = Some ''50%''
   \<and> getAttribute (updateGradientProperty exampleHost (SetAngle 90) (paintedApp [1])) 5 ''y2'' = Some ''50%''"
proof -
  have d: "decimalString (Some 50) = ''50''" "decimalString (Some 0) = ''0''"
    by (simp_all add: decimalString_def showNat.simps)
  show ?thesis
    using linear_gradient_endpoints[of "paintedApp [1]" 0 "SetAngle 90" 5 exampleHost]
      kids_ok_paintedApp[of "[1]"] gradientElements_paintedApp[of 90]
    by (simp add: paintedApp_def initialGradient_def exampleHost_def d)
qed

text \<open>
  The claim C2 as the spec has it fails at the angle 60: \<open>y1\<close> is set to 7 per cent, which is
  not \<open>50 - 50 sin 60\<degree>\<close>.
\<close>

theorem linear_gradient_rounds:
  "getAttribute (updateGradientProperty exampleHost (SetAngle 60) (paintedApp [1])) 5 ''y1'' = Some ''7%''
   \<and> 50 - 50 * sin (60 * pi / 180) \<noteq> (7 :: real)"
proof
  have d: "decimalString (Some 7) = ''7''" by (simp add: decimalString_def showNat.simps)
  have "linearEndpoints exampleHost (applyUpdate (SetAngle 60) (gradientProps (paintedApp [1])))
          (updateGradientProperty exampleHost (SetAngle 60) (paintedApp [1])) 5"
    using kids_ok_paintedApp[of "[1]"] gradientElements_paintedApp[of 60]
    by (intro enabled_linear_endpoints[of _ 0]) (simp_all add: paintedApp_def initialGradient_def)
  then show "getAttribute (updateGradientProperty exampleHost (SetAngle 60) (paintedApp [1])) 5 ''y1'' = Some ''7%''"
    using round_60 by (simp add: linearEndpoints_def percent_def rounded_def exampleHost_def d)
next
  have s: "sin (60 * pi / 180 :: real) = sqrt 3 / 2" using sin_60 by simp
  have "(173/100 :: real) < sqrt 3" by (rule real_less_rsqrt) (simp add: power2_eq_square)
  then show "50 - 50 * sin (60 * pi / 180) \<noteq> (7 :: real)" unfolding s by simp
qed

section \<open>Gradients: the paint server id\<close>

lemma setGeometry_frame:
  "k = ''id'' \<or> k = ''fill'' \<Longrightarrow> getAttribute (setGeometry env g ge s) q k = getAttribute s q k"
  by (auto simp: setGeometry_def Let_def)

lemma applyGradient_frame:
  assumes "q < nextRef (snd st)" and "k = ''id'' \<or> (k = ''fill'' \<and> q \<noteq> el)"
  shows "getAttribute (snd (applyGradient env g defs el st)) q k = getAttribute (snd st) q k"
proof -
  let ?s1 = "recordOrigFill el (snd st)"
  let ?i = "fst (gradientId env el (fst st) ?s1)"
  let ?R = "resolveGradEl (gtype g) defs ?i ?s1"
  let ?ge = "gradElOf env g defs el st"
  let ?s3 = "setGeometry env g ?ge (snd ?R)"
  let ?s4 = "clearChildren ?ge ?s3"
  let ?s5 = "fold (appendStop env ?ge) (stops g) ?s4"
  have k: "k \<noteq> ''data-orig-fill''" "k = ''id'' \<or> k = ''fill''" using assms(2) by auto
  have q1: "q < nextRef ?s1" using assms(1) by simp
  have q4: "q < nextRef ?s4" using q1 resolveGradEl_frame(1)[of ?s1 "gtype g" defs ?i] by simp
  have "getAttribute ?s5 q k = getAttribute ?s4 q k" by (rule fold_appendStop_facts(3)[OF q4])
  also have "\<dots> = getAttribute (snd ?R) q k" using setGeometry_frame[OF k(2)] by simp
  also have "\<dots> = getAttribute ?s1 q k" by (rule resolveGradEl_frame(2)[OF q1])
  also have "\<dots> = getAttribute (snd st) q k" using k(1) by simp
  finally show ?thesis using assms(2) by (auto simp: applyGradient_state)
qed

lemma applyGradient_draws:
  "fst (applyGradient env g defs el st) = (if elementId (snd st) el \<noteq> [] then fst st else Suc (fst st))"
  by (cases st) (simp add: applyGradient_def Let_def case_prod_beta gradientId_def)

lemma elementId_applyGradient:
  "q < nextRef (snd st) \<Longrightarrow> elementId (snd (applyGradient env g defs el st)) q = elementId (snd st) q"
  using applyGradient_frame[of q st "''id''" el env g defs] by (simp add: elementId_def)

lemma fold_applyGradient_fill_frame:
  "q < nextRef (snd st) \<Longrightarrow> q \<notin> set sel
     \<Longrightarrow> getAttribute (snd (fold (applyGradient env g defs) sel st)) q ''fill'' = getAttribute (snd st) q ''fill''"
proof (induction sel arbitrary: st)
  case Nil
  then show ?case by simp
next
  case (Cons e sel)
  let ?st = "applyGradient env g defs e st"
  have "q < nextRef (snd ?st)" using Cons.prems(1) applyGradient_grows[of st env g defs e] by simp
  then have "getAttribute (snd (fold (applyGradient env g defs) sel ?st)) q ''fill'' = getAttribute (snd ?st) q ''fill''"
    using Cons.prems(2) by (intro Cons.IH) simp_all
  also have "\<dots> = getAttribute (snd st) q ''fill''"
    using Cons.prems by (intro applyGradient_frame) simp_all
  finally show ?case by simp
qed

lemma fold_applyGradient_fill:
  assumes "distinct sel" and "\<forall>e\<in>set sel. e < nextRef (snd st)"
    and "i < length sel" and "elementId (snd st) (sel ! i) = []"
  shows "getAttribute (snd (fold (applyGradient env g defs) sel st)) (sel ! i) ''fill''
     = Some (''url(#grad-'' @ take 5 (drop 2 (randomBase36 env
          (fst st + length (filter (\<lambda>e. elementId (snd st) e = []) (take i sel))))) @ '')'')"
  using assms
proof (induction sel arbitrary: st i)
  case Nil
  then show ?case by simp
next
  case (Cons e sel)
  let ?st = "applyGradient env g defs e st"
  have alloc: "\<forall>e'\<in>set sel. e' < nextRef (snd ?st)"
    using Cons.prems(2) applyGradient_grows[of st env g defs e] by fastforce
  show ?case
  proof (cases i)
    case 0
    then have id: "elementId (snd st) e = []" using Cons.prems(4) by simp
    have "getAttribute (snd ?st) e ''fill''
        = Some (''url(#'' @ fst (gradientId env e (fst st) (recordOrigFill e (snd st))) @ '')'')"
      using applyGradient_fill[of env g defs e "fst st" "snd st"] by simp
    also have "\<dots> = Some (''url(#grad-'' @ take 5 (drop 2 (randomBase36 env (fst st))) @ '')'')"
      using id by (simp add: gradientId_def)
    finally have f: "getAttribute (snd ?st) e ''fill''
        = Some (''url(#grad-'' @ take 5 (drop 2 (randomBase36 env (fst st))) @ '')'')" .
    have "e < nextRef (snd ?st)" using Cons.prems(2) applyGradient_grows[of st env g defs e] by fastforce
    moreover have "e \<notin> set sel" using Cons.prems(1) by simp
    ultimately have "getAttribute (snd (fold (applyGradient env g defs) sel ?st)) e ''fill''
        = getAttribute (snd ?st) e ''fill''"
      by (rule fold_applyGradient_fill_frame)
    then show ?thesis using f 0 by simp
  next
    case (Suc j)
    have j: "j < length sel" using Cons.prems(3) Suc by simp
    have same: "elementId (snd ?st) q = elementId (snd st) q" if "q \<in> set sel" for q
      using that Cons.prems(2) by (intro elementId_applyGradient) simp
    have idj: "elementId (snd ?st) (sel ! j) = []"
      using same[of "sel ! j"] j Cons.prems(4) Suc by simp
    have cnt: "filter (\<lambda>e. elementId (snd ?st) e = []) (take j sel)
             = filter (\<lambda>e. elementId (snd st) e = []) (take j sel)"
      by (rule filter_cong[OF refl]) (use same in \<open>auto dest: in_set_takeD\<close>)
    have d: "fst ?st + length (filter (\<lambda>e. elementId (snd st) e = []) (take j sel))
           = fst st + length (filter (\<lambda>e. elementId (snd st) e = []) (take (Suc j) (e # sel)))"
      by (simp add: applyGradient_draws)
    have "distinct sel" using Cons.prems(1) by simp
    from Cons.IH[OF this alloc j idj]
    show ?thesis using Suc by (simp add: cnt d del: take_Suc_Cons)
  qed
qed

lemma ensureDefs_grows: "nextRef s \<le> nextRef (snd (ensureDefs svg s))"
  by (simp add: ensureDefs_def prependFresh_def createElementNS_def split: option.split)

lemma enabled_update_fill:
  assumes "distinct (selectedElements s)"
    and "\<forall>e\<in>set (selectedElements s). e < nextRef s"
    and "rootSvg s = Some svg"
    and "enabled (applyUpdate upd (gradientProps s))"
    and "i < length (selectedElements s)"
    and "elementId s (selectedElements s ! i) = []"
  shows "getAttribute (updateGradientProperty env upd s) (selectedElements s ! i) ''fill''
     = Some (''url(#grad-'' @ take 5 (drop 2 (randomBase36 env
          (length (filter (\<lambda>e. elementId s e = []) (take i (selectedElements s)))))) @ '')'')"
proof -
  let ?g = "applyUpdate upd (gradientProps s)"
  let ?s0 = "s\<lparr>gradientProps := ?g\<rparr>"
  let ?defs = "fst (ensureDefs svg ?s0)"
  let ?s1 = "snd (ensureDefs svg ?s0)"
  let ?sel = "selectedElements s"
  have ne: "?sel \<noteq> []" using assms(5) by auto
  have fe: "gradientForEach env ?g ?defs = applyGradient env ?g ?defs"
    using assms(4) by (intro ext) (simp add: gradientForEach_def)
  have u: "updateGradientProperty env upd s = snd (fold (applyGradient env ?g ?defs) ?sel (0, ?s1))"
    using ne assms(3) by (simp add: updateGradientProperty_def Let_def case_prod_beta fe)
  have same: "elementId ?s1 q = elementId s q" if "q \<in> set ?sel" for q
    using ensureDefs_attributes[of q ?s0 svg "''id''"] assms(2) that by (simp add: elementId_def)
  have alloc: "\<forall>e\<in>set ?sel. e < nextRef (snd (0::nat, ?s1))"
    using assms(2) ensureDefs_grows[of ?s0 svg] by fastforce
  have idi: "elementId (snd (0::nat, ?s1)) (?sel ! i) = []" using same[of "?sel ! i"] assms(5,6) by simp
  have cnt: "filter (\<lambda>e. elementId ?s1 e = []) (take i ?sel) = filter (\<lambda>e. elementId s e = []) (take i ?sel)"
    by (rule filter_cong[OF refl]) (use same in \<open>auto dest: in_set_takeD\<close>)
  show ?thesis
    unfolding u using fold_applyGradient_fill[OF assms(1) alloc assms(5) idi, of env ?g ?defs]
    by (simp add: cnt)
qed

text \<open>
  C10. Let the selection be of distinct existing elements, in a document with a root, and the
  updated descriptor be enabled. Then \<open>updateGradientProperty\<close> binds the fill of every
  selected element with no id to the paint server id made of \<open>grad-\<close> and five characters of
  a random text drawn in the call: the draw whose number is the count of the elements with no
  id selected before it. So the same call on the same state under two hosts whose draws differ
  in these characters gives the element two different fills.
\<close>

theorem random_paint_server_id:
  assumes "distinct (selectedElements s)"
    and "\<forall>e\<in>set (selectedElements s). e < nextRef s"
    and "rootSvg s = Some svg"
    and "enabled (applyUpdate upd (gradientProps s))"
    and "i < length (selectedElements s)"
    and "elementId s (selectedElements s ! i) = []"
    and "take 5 (drop 2 (randomBase36 env1 (length (filter (\<lambda>e. elementId s e = []) (take i (selectedElements s))))))
       \<noteq> take 5 (drop 2 (randomBase36 env2 (length (filter (\<lambda>e. elementId s e = []) (take i (selectedElements s))))))"
  shows "getAttribute (updateGradientProperty env1 upd s) (selectedElements s ! i) ''fill''
           = Some (''url(#grad-'' @ take 5 (drop 2 (randomBase36 env1
                (length (filter (\<lambda>e. elementId s e = []) (take i (selectedElements s)))))) @ '')'')
       \<and> getAttribute (updateGradientProperty env2 upd s) (selectedElements s ! i) ''fill''
           = Some (''url(#grad-'' @ take 5 (drop 2 (randomBase36 env2
                (length (filter (\<lambda>e. elementId s e = []) (take i (selectedElements s)))))) @ '')'')
       \<and> getAttribute (updateGradientProperty env1 upd s) (selectedElements s ! i) ''fill''
           \<noteq> getAttribute (updateGradientProperty env2 upd s) (selectedElements s ! i) ''fill''"
  using enabled_update_fill[OF assms(1-6), of env1] enabled_update_fill[OF assms(1-6), of env2] assms(7)
  by simp

theorem random_paint_server_id_witness:
  "getAttribute (updateGradientProperty exampleHost (SetEnabled True) (exampleApp [2, 1])) 1 ''fill''
     = Some ''url(#grad-4fzyo)''
   \<and> getAttribute (updateGradientProperty (exampleHost\<lparr>randomBase36 := (\<lambda>i. ''0.k2j8x1m9q'')\<rparr>)
         (SetEnabled True) (exampleApp [2, 1])) 1 ''fill''
     = Some ''url(#grad-k2j8x)''"
  using random_paint_server_id[of "exampleApp [2, 1]" 0 "SetEnabled True" 1 exampleHost
      "exampleHost\<lparr>randomBase36 := (\<lambda>i. ''0.k2j8x1m9q'')\<rparr>"]
  by (simp add: exampleApp_def exampleHost_def elementId_def getAttribute_def initialGradient_def)

end
